theory Spec2Isabelle
  imports Main "HOL-Library.Word" "HOL-Library.Multiset" "HOL-Library.AList"
begin

section \<open>Package models\<close>

text \<open>
  The structs of package \<^verbatim>\<open>models\<close> as records. Go's \<^verbatim>\<open>int\<close> is the 64-bit
  two's complement integer of the usual platforms: \<open>+\<close> wraps and \<open><\<close> is the signed
  comparison \<open><s\<close>. A \<^verbatim>\<open>time.Time\<close> is a number of ticks. A Go map is an
  association list read with \<open>map_of\<close> and written with \<open>AList.update\<close>; since the order
  of a \<^verbatim>\<open>range\<close> over a map is chosen by the runtime anew for every loop, each such
  loop takes the runtime's choices as an argument (see \<open>range_order\<close>).
  Field names carry the struct's name where two structs share a field name.
\<close>

type_synonym go_int = "64 word"

datatype QuizStatus = QuizStatusWaiting | QuizStatusActive | QuizStatusEnded

record Question =
  Question_ID :: string
  Text :: string
  Options :: "string list"
  Question_Correct :: go_int
  Question_Points :: go_int
  Category :: string

record Answer =
  QuestionID :: string
  Answer_Answer :: go_int
  Answer_Correct :: bool
  Answer_Points :: go_int
  AnsweredAt :: nat

record User =
  User_ID :: string
  User_Name :: string
  User_Score :: go_int
  Answers :: "Answer list"
  JoinedAt :: nat

record LeaderboardEntry =
  Entry_UserID :: string
  Entry_Name :: string
  Entry_Score :: go_int
  Position :: go_int

record Quiz =
  Quiz_ID :: string
  Title :: string
  Questions :: "Question list"
  Participants :: "(string \<times> User) list"
  Status :: QuizStatus
  CreatedAt :: nat
  StartedAt :: "nat option"
  EndedAt :: "nat option"

subsection \<open>Iterating over a Go map\<close>

text \<open>
  \<open>range_order cs xs\<close> is the order in which one \<^verbatim>\<open>range\<close> loop visits the entries
  \<open>xs\<close> of a map: the runtime's choice \<open>c\<close> picks the entry at index \<open>c mod length xs\<close>
  among those not yet visited. Every arrangement of the entries is \<open>range_order cs xs\<close>
  for some \<open>cs\<close> (lemma \<open>range_order_complete\<close>).
\<close>

fun range_order :: "nat list \<Rightarrow> 'a list \<Rightarrow> 'a list" where
  "range_order cs [] = []"
| "range_order [] xs = xs"
| "range_order (c # cs) xs =
     (let i = c mod length xs
      in xs ! i # range_order cs (take i xs @ drop (Suc i) xs))"

subsection \<open>Methods of Quiz\<close>

definition AddParticipant :: "Quiz \<Rightarrow> User \<Rightarrow> Quiz" where
  "AddParticipant q user = q\<lparr>Participants := AList.update (User_ID user) user (Participants q)\<rparr>"

definition RemoveParticipant :: "Quiz \<Rightarrow> string \<Rightarrow> Quiz" where
  "RemoveParticipant q userID = q\<lparr>Participants := AList.delete userID (Participants q)\<rparr>"

definition entry_of_user :: "User \<Rightarrow> LeaderboardEntry" where
  "entry_of_user user =
     \<lparr>Entry_UserID = User_ID user, Entry_Name = User_Name user,
      Entry_Score = User_Score user, Position = 0\<rparr>"

text \<open>
  The inner loop of the sort, \<^verbatim>\<open>for j := i + 1; j < len(entries); j++\<close>, entered at
  \<open>j\<close>; \<^verbatim>\<open>entries[i], entries[j] = entries[j], entries[i]\<close> is the double update.
\<close>

function sort_inner :: "nat \<Rightarrow> nat \<Rightarrow> LeaderboardEntry list \<Rightarrow> LeaderboardEntry list" where
  "sort_inner i j entries =
     (if j < length entries
      then sort_inner i (j + 1)
             (if Entry_Score (entries ! i) <s Entry_Score (entries ! j)
              then entries[i := entries ! j, j := entries ! i]
              else entries)
      else entries)"
  by pat_completeness auto
termination
  by (relation "measure (\<lambda>(i, j, entries). length entries - j)") auto

declare sort_inner.simps [simp del]

lemma length_sort_inner [simp]: "length (sort_inner i j entries) = length entries"
proof (induction i j entries rule: sort_inner.induct)
  case (1 i j entries)
  then show ?case
    by (subst sort_inner.simps) simp
qed

text \<open>
  The outer loop, \<^verbatim>\<open>for i := 0; i < len(entries)-1; i++\<close>, entered at \<open>i\<close>. The bound
  is computed on Go ints, so an empty slice gives \<open>0 < -1\<close> and the loop is skipped.
\<close>

function sort_outer :: "nat \<Rightarrow> LeaderboardEntry list \<Rightarrow> LeaderboardEntry list" where
  "sort_outer i entries =
     (if int i < int (length entries) - 1
      then sort_outer (i + 1) (sort_inner i (i + 1) entries)
      else entries)"
  by pat_completeness auto
termination
  by (relation "measure (\<lambda>(i, entries). length entries - i)") auto

declare sort_outer.simps [simp del]

text \<open>\<^verbatim>\<open>for i := range entries { entries[i].Position = i + 1 }\<close>, entered at index \<open>i\<close>.\<close>

fun add_positions :: "nat \<Rightarrow> LeaderboardEntry list \<Rightarrow> LeaderboardEntry list" where
  "add_positions i [] = []"
| "add_positions i (e # es) = e\<lparr>Position := word_of_nat (i + 1)\<rparr> # add_positions (i + 1) es"

text \<open>
  \<^verbatim>\<open>Quiz.GetLeaderboard\<close>; \<open>cs\<close> are the runtime's choices for the \<^verbatim>\<open>range\<close> over
  \<^verbatim>\<open>q.Participants\<close>.
\<close>

definition Quiz_GetLeaderboard :: "nat list \<Rightarrow> Quiz \<Rightarrow> LeaderboardEntry list" where
  "Quiz_GetLeaderboard cs q =
     add_positions 0
       (sort_outer 0 (map (\<lambda>(k, user). entry_of_user user) (range_order cs (Participants q))))"

subsection \<open>Methods of User\<close>

definition AddAnswer :: "User \<Rightarrow> Answer \<Rightarrow> User" where
  "AddAnswer u answer =
     (let u1 = u\<lparr>Answers := Answers u @ [answer]\<rparr>
      in if Answer_Correct answer
         then u1\<lparr>User_Score := User_Score u1 + Answer_Points answer\<rparr>
         else u1)"

definition GetScore :: "User \<Rightarrow> go_int" where
  "GetScore u = User_Score u"

fun HasAnswered_loop :: "Answer list \<Rightarrow> string \<Rightarrow> bool" where
  "HasAnswered_loop [] questionID = False"
| "HasAnswered_loop (answer # rest) questionID =
     (if QuestionID answer = questionID then True else HasAnswered_loop rest questionID)"

definition HasAnswered :: "User \<Rightarrow> string \<Rightarrow> bool" where
  "HasAnswered u questionID = HasAnswered_loop (Answers u) questionID"

section \<open>Package services\<close>

subsection \<open>Errors and messages\<close>

text \<open>
  The errors are the values built by \<^verbatim>\<open>fmt.Errorf\<close>, one constructor for each
  message, and \<open>Panic\<close> for a run-time panic of the Go runtime. \<open>kind_of\<close> sorts them
  into the failure classes of the specification.
\<close>

datatype error =
    QuizNotFound string
  | UserNotFound string
  | AlreadyAnswered
  | QuestionNotFound string
  | QuizNotWaiting
  | CreateSaveFailed
  | RedisNotAvailable
  | RedisCommandFailed
  | ReceiveFailed
  | UnmarshalFailed
  | Panic string

datatype error_kind = NotFound | Conflict | InvalidState | PersistenceError | RuntimePanic

fun kind_of :: "error \<Rightarrow> error_kind" where
  "kind_of (QuizNotFound _) = NotFound"
| "kind_of (UserNotFound _) = NotFound"
| "kind_of (QuestionNotFound _) = NotFound"
| "kind_of AlreadyAnswered = Conflict"
| "kind_of QuizNotWaiting = InvalidState"
| "kind_of (Panic _) = RuntimePanic"
| "kind_of _ = PersistenceError"

text \<open>
  The payloads the service puts into a \<^verbatim>\<open>WebSocketMessage\<close>. The bytes that
  \<^verbatim>\<open>json.Marshal\<close> makes of a message stand for the message itself; marshalling
  these payloads cannot fail.
\<close>

datatype payload =
    UserJoinedPayload string string
  | UserScorePayload string string go_int
  | LeaderboardPayload "LeaderboardEntry list"
  | QuizStartedPayload string nat
  | QuizEndedPayload string nat

record WebSocketMessage =
  Type :: string
  Payload :: payload

subsection \<open>RedisService\<close>

text \<open>
  What the Redis server holds, as far as this program reads and writes it: the keys
  \<^verbatim>\<open>quiz:<id>\<close>, \<^verbatim>\<open>user:<id>\<close> and \<^verbatim>\<open>leaderboard:<id>\<close>, the set
  \<^verbatim>\<open>active_quizzes\<close>, and the messages published so far, oldest first. A value is
  stored as JSON and read back as the value it encodes. \<open>client = None\<close> is the nil
  client of the memory-only mode. Whether a command reaches the server is not decided
  by the program: each method takes the outcome of its commands as an argument.
\<close>

record RedisStore =
  quiz_keys :: "string \<rightharpoonup> Quiz"
  user_keys :: "string \<rightharpoonup> User"
  leaderboard_keys :: "string \<rightharpoonup> LeaderboardEntry list"
  active_quizzes :: "string set"
  published :: "(string \<times> WebSocketMessage) list"

record RedisService =
  client :: "RedisStore option"

definition IsAvailable :: "RedisService \<Rightarrow> bool" where
  "IsAvailable rs = (client rs \<noteq> None)"

definition SaveQuiz :: "RedisService \<Rightarrow> bool \<Rightarrow> bool \<Rightarrow> Quiz \<Rightarrow> error option \<times> RedisService" where
  "SaveQuiz rs set_ok sadd_ok quiz =
     (case client rs of
        None \<Rightarrow> (None, rs)
      | Some st \<Rightarrow>
          if \<not> set_ok then (Some RedisCommandFailed, rs)
          else
            let st1 = st\<lparr>quiz_keys := (quiz_keys st)(Quiz_ID quiz \<mapsto> quiz)\<rparr>;
                st2 = (if sadd_ok
                       then st1\<lparr>active_quizzes := insert (Quiz_ID quiz) (active_quizzes st1)\<rparr>
                       else st1)
            in (None, rs\<lparr>client := Some st2\<rparr>))"

definition Redis_GetQuiz :: "RedisService \<Rightarrow> bool \<Rightarrow> string \<Rightarrow> error + Quiz" where
  "Redis_GetQuiz rs get_ok quizID =
     (case client rs of
        None \<Rightarrow> Inl RedisNotAvailable
      | Some st \<Rightarrow>
          if \<not> get_ok then Inl RedisCommandFailed
          else (case quiz_keys st quizID of
                  None \<Rightarrow> Inl (QuizNotFound quizID)
                | Some quiz \<Rightarrow> Inr quiz))"

definition SaveUser :: "RedisService \<Rightarrow> bool \<Rightarrow> User \<Rightarrow> error option \<times> RedisService" where
  "SaveUser rs set_ok user =
     (case client rs of
        None \<Rightarrow> (None, rs)
      | Some st \<Rightarrow>
          if \<not> set_ok then (Some RedisCommandFailed, rs)
          else (None, rs\<lparr>client := Some (st\<lparr>user_keys := (user_keys st)(User_ID user \<mapsto> user)\<rparr>)\<rparr>))"

definition SaveLeaderboard ::
  "RedisService \<Rightarrow> bool \<Rightarrow> string \<Rightarrow> LeaderboardEntry list \<Rightarrow> error option \<times> RedisService" where
  "SaveLeaderboard rs set_ok quizID leaderboard =
     (case client rs of
        None \<Rightarrow> (None, rs)
      | Some st \<Rightarrow>
          if \<not> set_ok then (Some RedisCommandFailed, rs)
          else (None, rs\<lparr>client :=
                  Some (st\<lparr>leaderboard_keys := (leaderboard_keys st)(quizID \<mapsto> leaderboard)\<rparr>)\<rparr>))"

definition PublishMessage ::
  "RedisService \<Rightarrow> bool \<Rightarrow> string \<Rightarrow> WebSocketMessage \<Rightarrow> error option \<times> RedisService" where
  "PublishMessage rs publish_ok channel message =
     (case client rs of
        None \<Rightarrow> (None, rs)
      | Some st \<Rightarrow>
          if \<not> publish_ok then (Some RedisCommandFailed, rs)
          else (None, rs\<lparr>client := Some (st\<lparr>published := published st @ [(channel, message)]\<rparr>)\<rparr>))"

subsection \<open>Clients and their channels\<close>

text \<open>
  A buffered channel \<^verbatim>\<open>chan []byte\<close>: the queued values, the capacity it was made
  with, and whether it has been closed. The nil channel is \<open>None\<close>.
  \<open>select_send\<close> is \<^verbatim>\<open>select { case ch <- data: ... default: ... }\<close>: a send on a
  closed channel panics, a send on a nil or full channel is not ready, so that the
  \<^verbatim>\<open>default\<close> branch runs.
\<close>

record Chan =
  buf :: "WebSocketMessage list"
  cap :: nat
  closed :: bool

datatype send_result = Sent Chan | NotReady | SendOnClosed

definition select_send :: "Chan option \<Rightarrow> WebSocketMessage \<Rightarrow> send_result" where
  "select_send ch data =
     (case ch of
        None \<Rightarrow> NotReady
      | Some c \<Rightarrow>
          if closed c then SendOnClosed
          else if length (buf c) < cap c then Sent (c\<lparr>buf := buf c @ [data]\<rparr>)
          else NotReady)"

text \<open>The struct \<^verbatim>\<open>Client\<close>; the back pointer \<^verbatim>\<open>Hub\<close> is never read.\<close>

record Client =
  Client_ID :: string
  Client_QuizID :: string
  Client_UserID :: string
  Send :: "Chan option"

text \<open>
  \<^verbatim>\<open>HandleWebSocket\<close> builds every client of the program this way.
\<close>

definition new_client :: "string \<Rightarrow> Client" where
  "new_client cid =
     \<lparr>Client_ID = cid, Client_QuizID = [], Client_UserID = [],
      Send = Some \<lparr>buf = [], cap = 256, closed = False\<rparr>\<rparr>"

subsection \<open>QuizService\<close>

text \<open>
  \<^verbatim>\<open>Quizzes\<close> is never iterated, so it is a map. \<^verbatim>\<open>Clients\<close> is keyed by
  pointers: a pointer is an address, and \<open>objects\<close> holds the \<^verbatim>\<open>Client\<close> at each
  address, registered or not. An address without an object is a nil pointer.
  The quizzes and users behind the pointers of \<^verbatim>\<open>Quizzes\<close> and
  \<^verbatim>\<open>Participants\<close> are reached through these maps only, so they are stored in place.
\<close>

record QuizService =
  Quizzes :: "string \<rightharpoonup> Quiz"
  Clients :: "(nat \<times> bool) list"
  objects :: "nat \<rightharpoonup> Client"
  Redis :: RedisService

text \<open>
  What one call takes from outside the program: the identifier made by
  \<^verbatim>\<open>uuid.New().String()[:8]\<close>, the clock, the outcome of each Redis command it
  issues, and the runtime's choices for each \<^verbatim>\<open>range\<close> over a map. The broadcasts
  of one call are numbered from 0.
\<close>

record Env =
  uuid :: string
  now :: nat
  get_ok :: bool
  set_quiz_ok :: bool
  sadd_ok :: bool
  set_user_ok :: bool
  set_leaderboard_ok :: bool
  publish_ok :: "nat \<Rightarrow> bool"
  range_participants :: "nat list"
  range_clients :: "nat \<Rightarrow> nat list"

definition getSampleQuestions :: "Question list" where
  "getSampleQuestions =
     [\<lparr>Question_ID = ''q1'', Text = ''What is the capital of Vietnam?'',
       Options = [''Hanoi'', ''Ho Chi Minh City'', ''Da Nang'', ''Hue''],
       Question_Correct = 0, Question_Points = 10, Category = ''Geography''\<rparr>,
      \<lparr>Question_ID = ''q2'', Text = ''Which programming language is this quiz written in?'',
       Options = [''Python'', ''JavaScript'', ''Go'', ''Java''],
       Question_Correct = 2, Question_Points = 15, Category = ''Programming''\<rparr>,
      \<lparr>Question_ID = ''q3'', Text = ''What is Redis primarily used for?'',
       Options = [''File storage'', ''In-memory data store'', ''Database backup'', ''Email service''],
       Question_Correct = 1, Question_Points = 20, Category = ''Technology''\<rparr>,
      \<lparr>Question_ID = ''q4'', Text = ''What does WebSocket provide?'',
       Options = [''File upload'', ''Real-time communication'', ''Database queries'', ''Email sending''],
       Question_Correct = 1, Question_Points = 15, Category = ''Technology''\<rparr>,
      \<lparr>Question_ID = ''q5'', Text = ''Which company owns Btaskee?'',
       Options = [''Grab'', ''GoJek'', ''Btaskee Pte Ltd'', ''Lazada''],
       Question_Correct = 2, Question_Points = 10, Category = ''Business''\<rparr>]"

definition RegisterClient :: "QuizService \<Rightarrow> nat \<Rightarrow> error option \<times> QuizService" where
  "RegisterClient qs p =
     (let qs1 = qs\<lparr>Clients := AList.update p True (Clients qs)\<rparr>
      in case objects qs p of
           None \<Rightarrow> (Some (Panic ''nil pointer dereference''), qs1)
         | Some c \<Rightarrow> (None, qs1))"

text \<open>\<^verbatim>\<open>close(client.Send)\<close> on the object at address \<open>p\<close>.\<close>

definition close_Send :: "(nat \<rightharpoonup> Client) \<Rightarrow> nat \<Rightarrow> error + (nat \<rightharpoonup> Client)" where
  "close_Send h p =
     (case h p of
        None \<Rightarrow> Inl (Panic ''nil pointer dereference'')
      | Some c \<Rightarrow>
          (case Send c of
             None \<Rightarrow> Inl (Panic ''close of nil channel'')
           | Some ch \<Rightarrow>
               if closed ch then Inl (Panic ''close of closed channel'')
               else Inr (h(p \<mapsto> c\<lparr>Send := Some (ch\<lparr>closed := True\<rparr>)\<rparr>))))"

definition UnregisterClient :: "QuizService \<Rightarrow> nat \<Rightarrow> error option \<times> QuizService" where
  "UnregisterClient qs p =
     (if map_of (Clients qs) p \<noteq> None
      then
        let qs1 = qs\<lparr>Clients := AList.delete p (Clients qs)\<rparr>
        in case close_Send (objects qs1) p of
             Inl e \<Rightarrow> (Some e, qs1)
           | Inr h \<Rightarrow> (None, qs1\<lparr>objects := h\<rparr>)
      else (None, qs))"

text \<open>
  The first loop of \<^verbatim>\<open>broadcastToQuiz\<close> over the pointers \<open>ps\<close> still to visit:
  \<open>h\<close> are the objects and \<open>rm\<close> is \<^verbatim>\<open>clientsToRemove\<close>.
\<close>

fun fan_out ::
  "string \<Rightarrow> WebSocketMessage \<Rightarrow> nat list \<Rightarrow> (nat \<rightharpoonup> Client) \<Rightarrow> nat list
   \<Rightarrow> error option \<times> (nat \<rightharpoonup> Client) \<times> nat list" where
  "fan_out quizID data [] h rm = (None, h, rm)"
| "fan_out quizID data (p # ps) h rm =
     (case h p of
        None \<Rightarrow> (Some (Panic ''nil pointer dereference''), h, rm)
      | Some c \<Rightarrow>
          if Client_QuizID c = quizID
          then (case select_send (Send c) data of
                  Sent ch \<Rightarrow> fan_out quizID data ps (h(p \<mapsto> c\<lparr>Send := Some ch\<rparr>)) rm
                | NotReady \<Rightarrow> fan_out quizID data ps h (rm @ [p])
                | SendOnClosed \<Rightarrow> (Some (Panic ''send on closed channel''), h, rm))
          else fan_out quizID data ps h rm)"

text \<open>The second loop, over \<^verbatim>\<open>clientsToRemove\<close>.\<close>

fun remove_dead ::
  "nat list \<Rightarrow> (nat \<times> bool) list \<Rightarrow> (nat \<rightharpoonup> Client)
   \<Rightarrow> error option \<times> (nat \<times> bool) list \<times> (nat \<rightharpoonup> Client)" where
  "remove_dead [] cl h = (None, cl, h)"
| "remove_dead (p # ps) cl h =
     (if map_of cl p \<noteq> None
      then (case close_Send h p of
              Inl e \<Rightarrow> (Some e, AList.delete p cl, h)
            | Inr h' \<Rightarrow> remove_dead ps (AList.delete p cl) h')
      else remove_dead ps cl h)"

text \<open>
  \<^verbatim>\<open>broadcastToQuiz\<close>: \<open>pub_ok\<close> is the outcome of the publish command and \<open>cs\<close>
  are the runtime's choices for the \<^verbatim>\<open>range\<close> over \<^verbatim>\<open>qs.Clients\<close>. A failed
  publish is logged and nothing more.
\<close>

definition broadcastToQuiz ::
  "bool \<Rightarrow> nat list \<Rightarrow> QuizService \<Rightarrow> string \<Rightarrow> WebSocketMessage \<Rightarrow> error option \<times> QuizService" where
  "broadcastToQuiz pub_ok cs qs quizID message =
     (case fan_out quizID message (map fst (range_order cs (Clients qs))) (objects qs) [] of
        (Some e, h, rm) \<Rightarrow> (Some e, qs\<lparr>objects := h\<rparr>)
      | (None, h, clientsToRemove) \<Rightarrow>
          (case (if length clientsToRemove > 0
                 then remove_dead clientsToRemove (Clients qs) h
                 else (None, Clients qs, h)) of
             (Some e, cl, h') \<Rightarrow> (Some e, qs\<lparr>Clients := cl, objects := h'\<rparr>)
           | (None, cl, h') \<Rightarrow>
               (None, qs\<lparr>Clients := cl, objects := h',
                          Redis := snd (PublishMessage (Redis qs) pub_ok (''quiz:'' @ quizID) message)\<rparr>)))"

text \<open>
  \<^verbatim>\<open>QuizService.GetQuiz\<close>: memory first, then Redis, and a quiz loaded from Redis is
  added to memory. Whatever error Redis gives, the error returned is "quiz not found".
\<close>

definition GetQuiz :: "Env \<Rightarrow> QuizService \<Rightarrow> string \<Rightarrow> (error + Quiz) \<times> QuizService" where
  "GetQuiz env qs quizID =
     (case Quizzes qs quizID of
        Some quiz \<Rightarrow> (Inr quiz, qs)
      | None \<Rightarrow>
          (case Redis_GetQuiz (Redis qs) (get_ok env) quizID of
             Inl err \<Rightarrow> (Inl (QuizNotFound quizID), qs)
           | Inr quiz \<Rightarrow> (Inr quiz, qs\<lparr>Quizzes := (Quizzes qs)(quizID \<mapsto> quiz)\<rparr>)))"

definition CreateQuiz :: "Env \<Rightarrow> QuizService \<Rightarrow> string \<Rightarrow> (error + Quiz) \<times> QuizService" where
  "CreateQuiz env qs title =
     (let quizID = uuid env;
          quiz = \<lparr>Quiz_ID = quizID, Title = title, Questions = getSampleQuestions,
                  Participants = [], Status = QuizStatusWaiting, CreatedAt = now env,
                  StartedAt = None, EndedAt = None\<rparr>
      in case SaveQuiz (Redis qs) (set_quiz_ok env) (sadd_ok env) quiz of
           (Some err, rs) \<Rightarrow> (Inl CreateSaveFailed, qs\<lparr>Redis := rs\<rparr>)
         | (None, rs) \<Rightarrow> (Inr quiz, qs\<lparr>Redis := rs, Quizzes := (Quizzes qs)(quizID \<mapsto> quiz)\<rparr>))"

text \<open>
  \<^verbatim>\<open>QuizService.GetLeaderboard\<close>. The goroutine that saves the leaderboard is run
  at the point where it is started.
\<close>

definition GetLeaderboard ::
  "Env \<Rightarrow> QuizService \<Rightarrow> string \<Rightarrow> (error + LeaderboardEntry list) \<times> QuizService" where
  "GetLeaderboard env qs quizID =
     (case GetQuiz env qs quizID of
        (Inl err, qs1) \<Rightarrow> (Inl err, qs1)
      | (Inr quiz, qs1) \<Rightarrow>
          let leaderboard = Quiz_GetLeaderboard (range_participants env) quiz
          in (Inr leaderboard,
              qs1\<lparr>Redis := snd (SaveLeaderboard (Redis qs1) (set_leaderboard_ok env) quizID leaderboard)\<rparr>))"

text \<open>\<^verbatim>\<open>broadcastLeaderboard\<close>, as the broadcast number \<open>n\<close> of the call.\<close>

definition broadcastLeaderboard :: "Env \<Rightarrow> nat \<Rightarrow> QuizService \<Rightarrow> string \<Rightarrow> error option \<times> QuizService" where
  "broadcastLeaderboard env n qs quizID =
     (case GetLeaderboard env qs quizID of
        (Inl err, qs1) \<Rightarrow> (None, qs1)
      | (Inr leaderboard, qs1) \<Rightarrow>
          broadcastToQuiz (publish_ok env n) (range_clients env n) qs1 quizID
            \<lparr>Type = ''leaderboard_update'', Payload = LeaderboardPayload leaderboard\<rparr>)"

text \<open>
  What \<^verbatim>\<open>JoinQuiz\<close> and \<^verbatim>\<open>SubmitAnswer\<close> do after changing the quiz in memory:
  both saves, whose errors are logged only.
\<close>

definition save_quiz_and_user :: "Env \<Rightarrow> QuizService \<Rightarrow> Quiz \<Rightarrow> User \<Rightarrow> QuizService" where
  "save_quiz_and_user env qs quiz user =
     (let rs1 = snd (SaveQuiz (Redis qs) (set_quiz_ok env) (sadd_ok env) quiz);
          rs2 = snd (SaveUser rs1 (set_user_ok env) user)
      in qs\<lparr>Redis := rs2\<rparr>)"

definition JoinQuiz :: "Env \<Rightarrow> QuizService \<Rightarrow> string \<Rightarrow> string \<Rightarrow> (error + User) \<times> QuizService" where
  "JoinQuiz env qs quizID userName =
     (case GetQuiz env qs quizID of
        (Inl err, qs1) \<Rightarrow> (Inl err, qs1)
      | (Inr quiz, qs1) \<Rightarrow>
          let userID = uuid env;
              user = \<lparr>User_ID = userID, User_Name = userName, User_Score = 0, Answers = [],
                      JoinedAt = now env\<rparr>;
              quiz' = AddParticipant quiz user;
              qs2 = qs1\<lparr>Quizzes := (Quizzes qs1)(quizID \<mapsto> quiz')\<rparr>;
              qs3 = save_quiz_and_user env qs2 quiz' user
          in (case broadcastToQuiz (publish_ok env 0) (range_clients env 0) qs3 quizID
                     \<lparr>Type = ''user_joined'', Payload = UserJoinedPayload userID userName\<rparr> of
                (Some e, qs4) \<Rightarrow> (Inl e, qs4)
              | (None, qs4) \<Rightarrow>
                  (case broadcastLeaderboard env 1 qs4 quizID of
                     (Some e, qs5) \<Rightarrow> (Inl e, qs5)
                   | (None, qs5) \<Rightarrow> (Inr user, qs5))))"

text \<open>The loop of \<^verbatim>\<open>SubmitAnswer\<close> that looks for the question.\<close>

fun find_question :: "Question list \<Rightarrow> string \<Rightarrow> Question option" where
  "find_question [] questionID = None"
| "find_question (q # qs) questionID =
     (if Question_ID q = questionID then Some q else find_question qs questionID)"

definition SubmitAnswer ::
  "Env \<Rightarrow> QuizService \<Rightarrow> string \<Rightarrow> string \<Rightarrow> string \<Rightarrow> go_int \<Rightarrow> error option \<times> QuizService" where
  "SubmitAnswer env qs quizID userID questionID answer =
     (case GetQuiz env qs quizID of
        (Inl err, qs1) \<Rightarrow> (Some err, qs1)
      | (Inr quiz, qs1) \<Rightarrow>
          (case map_of (Participants quiz) userID of
             None \<Rightarrow> (Some (UserNotFound userID), qs1)
           | Some user \<Rightarrow>
               if HasAnswered user questionID then (Some AlreadyAnswered, qs1)
               else
                 (case find_question (Questions quiz) questionID of
                    None \<Rightarrow> (Some (QuestionNotFound questionID), qs1)
                  | Some question \<Rightarrow>
                      let isCorrect = (answer = Question_Correct question);
                          points = (if isCorrect then Question_Points question else 0);
                          answerRecord =
                            \<lparr>QuestionID = questionID, Answer_Answer = answer,
                             Answer_Correct = isCorrect, Answer_Points = points,
                             AnsweredAt = now env\<rparr>;
                          user' = AddAnswer user answerRecord;
                          quiz' = quiz\<lparr>Participants := AList.update userID user' (Participants quiz)\<rparr>;
                          qs2 = qs1\<lparr>Quizzes := (Quizzes qs1)(quizID \<mapsto> quiz')\<rparr>;
                          qs3 = save_quiz_and_user env qs2 quiz' user'
                      in (case broadcastToQuiz (publish_ok env 0) (range_clients env 0) qs3 quizID
                                 \<lparr>Type = ''score_update'',
                                  Payload = UserScorePayload userID (User_Name user') (GetScore user')\<rparr> of
                            (Some e, qs4) \<Rightarrow> (Some e, qs4)
                          | (None, qs4) \<Rightarrow> broadcastLeaderboard env 1 qs4 quizID))))"

text \<open>
  The locks of \<^verbatim>\<open>SubmitAnswer\<close>: \<^verbatim>\<open>HasAnswered\<close> holds the user's read lock while it
  runs, \<^verbatim>\<open>AddAnswer\<close> holds the user's lock while it runs, and the method holds no lock
  from the one to the other; the handlers serve each request in a goroutine of its own.
  So the steps of two calls can alternate, and the method is given here in two parts as
  well. \<open>SubmitAnswer_check\<close> is the method up to the answer record: it reads, and
  changes nothing but what \<^verbatim>\<open>GetQuiz\<close> adds to memory. \<open>SubmitAnswer_commit\<close> is the
  method from \<^verbatim>\<open>user.AddAnswer(answerRecord)\<close> on. The pointers \<^verbatim>\<open>quiz\<close> and
  \<^verbatim>\<open>user\<close> that the call holds there are the quiz stored under \<open>quizID\<close> and its
  participant under \<open>userID\<close>, read as they are at that moment; the result is \<open>None\<close>
  when nothing is stored there. The first part followed at once by the second is
  \<open>SubmitAnswer\<close> (lemma \<open>SubmitAnswer_check_then_commit\<close>).
\<close>

definition SubmitAnswer_check ::
  "Env \<Rightarrow> QuizService \<Rightarrow> string \<Rightarrow> string \<Rightarrow> string \<Rightarrow> go_int \<Rightarrow> (error + Answer) \<times> QuizService" where
  "SubmitAnswer_check env qs quizID userID questionID answer =
     (case GetQuiz env qs quizID of
        (Inl err, qs1) \<Rightarrow> (Inl err, qs1)
      | (Inr quiz, qs1) \<Rightarrow>
          (case map_of (Participants quiz) userID of
             None \<Rightarrow> (Inl (UserNotFound userID), qs1)
           | Some user \<Rightarrow>
               if HasAnswered user questionID then (Inl AlreadyAnswered, qs1)
               else
                 (case find_question (Questions quiz) questionID of
                    None \<Rightarrow> (Inl (QuestionNotFound questionID), qs1)
                  | Some question \<Rightarrow>
                      let isCorrect = (answer = Question_Correct question);
                          points = (if isCorrect then Question_Points question else 0)
                      in (Inr \<lparr>QuestionID = questionID, Answer_Answer = answer,
                               Answer_Correct = isCorrect, Answer_Points = points,
                               AnsweredAt = now env\<rparr>, qs1))))"

definition SubmitAnswer_commit ::
  "Env \<Rightarrow> QuizService \<Rightarrow> string \<Rightarrow> string \<Rightarrow> Answer \<Rightarrow> (error option \<times> QuizService) option" where
  "SubmitAnswer_commit env qs quizID userID answerRecord =
     (case Quizzes qs quizID of
        None \<Rightarrow> None
      | Some quiz \<Rightarrow>
          (case map_of (Participants quiz) userID of
             None \<Rightarrow> None
           | Some user \<Rightarrow>
               let user' = AddAnswer user answerRecord;
                   quiz' = quiz\<lparr>Participants := AList.update userID user' (Participants quiz)\<rparr>;
                   qs2 = qs\<lparr>Quizzes := (Quizzes qs)(quizID \<mapsto> quiz')\<rparr>;
                   qs3 = save_quiz_and_user env qs2 quiz' user'
               in Some (case broadcastToQuiz (publish_ok env 0) (range_clients env 0) qs3 quizID
                               \<lparr>Type = ''score_update'',
                                Payload = UserScorePayload userID (User_Name user') (GetScore user')\<rparr> of
                          (Some e, qs4) \<Rightarrow> (Some e, qs4)
                        | (None, qs4) \<Rightarrow> broadcastLeaderboard env 1 qs4 quizID)))"

definition StartQuiz :: "Env \<Rightarrow> QuizService \<Rightarrow> string \<Rightarrow> error option \<times> QuizService" where
  "StartQuiz env qs quizID =
     (case GetQuiz env qs quizID of
        (Inl err, qs1) \<Rightarrow> (Some err, qs1)
      | (Inr quiz, qs1) \<Rightarrow>
          if Status quiz \<noteq> QuizStatusWaiting then (Some QuizNotWaiting, qs1)
          else
            let quiz' = quiz\<lparr>Status := QuizStatusActive, StartedAt := Some (now env)\<rparr>;
                qs2 = qs1\<lparr>Quizzes := (Quizzes qs1)(quizID \<mapsto> quiz')\<rparr>;
                qs3 = qs2\<lparr>Redis := snd (SaveQuiz (Redis qs2) (set_quiz_ok env) (sadd_ok env) quiz')\<rparr>
            in broadcastToQuiz (publish_ok env 0) (range_clients env 0) qs3 quizID
                 \<lparr>Type = ''quiz_started'', Payload = QuizStartedPayload quizID (now env)\<rparr>)"

definition EndQuiz :: "Env \<Rightarrow> QuizService \<Rightarrow> string \<Rightarrow> error option \<times> QuizService" where
  "EndQuiz env qs quizID =
     (case GetQuiz env qs quizID of
        (Inl err, qs1) \<Rightarrow> (Some err, qs1)
      | (Inr quiz, qs1) \<Rightarrow>
          let quiz' = quiz\<lparr>Status := QuizStatusEnded, EndedAt := Some (now env)\<rparr>;
              qs2 = qs1\<lparr>Quizzes := (Quizzes qs1)(quizID \<mapsto> quiz')\<rparr>;
              qs3 = qs2\<lparr>Redis := snd (SaveQuiz (Redis qs2) (set_quiz_ok env) (sadd_ok env) quiz')\<rparr>
          in broadcastToQuiz (publish_ok env 0) (range_clients env 0) qs3 quizID
               \<lparr>Type = ''quiz_ended'', Payload = QuizEndedPayload quizID (now env)\<rparr>)"

subsection \<open>The subscription loop\<close>

text \<open>
  What \<^verbatim>\<open>pubSub.ReceiveMessage\<close> returns: the channel's name and the bytes, which
  either decode to a message or do not.
\<close>

datatype wire = Encoded WebSocketMessage | Undecodable

record PubSubMessage =
  Channel :: string
  Bytes :: wire

definition json_Unmarshal :: "wire \<Rightarrow> error + WebSocketMessage" where
  "json_Unmarshal w = (case w of Encoded message \<Rightarrow> Inr message | Undecodable \<Rightarrow> Inl UnmarshalFailed)"

text \<open>
  The body of the \<^verbatim>\<open>for\<close> loop of \<^verbatim>\<open>startRedisSubscription\<close> for one received
  message; \<^verbatim>\<open>msg.Channel[5:]\<close> panics on a name shorter than five bytes.
\<close>

definition on_message :: "Env \<Rightarrow> QuizService \<Rightarrow> PubSubMessage \<Rightarrow> error option \<times> QuizService" where
  "on_message env qs msg =
     (case json_Unmarshal (Bytes msg) of
        Inl err \<Rightarrow> (None, qs)
      | Inr message \<Rightarrow>
          if length (Channel msg) < 5 then (Some (Panic ''slice bounds out of range''), qs)
          else broadcastToQuiz (publish_ok env 0) (range_clients env 0) qs (drop 5 (Channel msg)) message)"

text \<open>
  \<^verbatim>\<open>startRedisSubscription\<close> over what \<^verbatim>\<open>ReceiveMessage\<close> returns, call by call,
  each with the environment of its iteration: an error ends the loop.
\<close>

fun subscription_loop ::
  "QuizService \<Rightarrow> (Env \<times> (error + PubSubMessage)) list \<Rightarrow> error option \<times> QuizService" where
  "subscription_loop qs [] = (None, qs)"
| "subscription_loop qs ((env, Inl err) # rest) = (None, qs)"
| "subscription_loop qs ((env, Inr msg) # rest) =
     (case on_message env qs msg of
        (Some e, qs1) \<Rightarrow> (Some e, qs1)
      | (None, qs1) \<Rightarrow> subscription_loop qs1 rest)"

definition startRedisSubscription ::
  "QuizService \<Rightarrow> (Env \<times> (error + PubSubMessage)) list \<Rightarrow> error option \<times> QuizService" where
  "startRedisSubscription qs received =
     (if \<not> IsAvailable (Redis qs) then (None, qs) else subscription_loop qs received)"

section \<open>Notions used to state the properties\<close>

text \<open>The \<^verbatim>\<open>quiz:<id>\<close> keys and the published messages that a service can reach:
  none without a client.\<close>

definition redis_quizzes :: "RedisService \<Rightarrow> (string \<rightharpoonup> Quiz)" where
  "redis_quizzes rs = (case client rs of None \<Rightarrow> Map.empty | Some st \<Rightarrow> quiz_keys st)"

definition redis_published :: "RedisService \<Rightarrow> (string \<times> WebSocketMessage) list" where
  "redis_published rs = (case client rs of None \<Rightarrow> [] | Some st \<Rightarrow> published st)"

text \<open>Every quiz the service holds, in memory or in Redis.\<close>

definition stored_quizzes :: "QuizService \<Rightarrow> Quiz set" where
  "stored_quizzes qs = ran (Quizzes qs) \<union> ran (redis_quizzes (Redis qs))"

text \<open>The calls that the handlers make on the service, and a service that serves a
  sequence of them one after the other, each call running to its end before the next one
  begins, each in the environment of its own call. The state is kept whatever the call
  returns.\<close>

datatype request =
    CreateQuizReq string
  | GetQuizReq string
  | JoinQuizReq string string
  | SubmitAnswerReq string string string go_int
  | GetLeaderboardReq string
  | StartQuizReq string
  | EndQuizReq string

fun serve :: "Env \<Rightarrow> QuizService \<Rightarrow> request \<Rightarrow> QuizService" where
  "serve env qs (CreateQuizReq title) = snd (CreateQuiz env qs title)"
| "serve env qs (GetQuizReq quizID) = snd (GetQuiz env qs quizID)"
| "serve env qs (JoinQuizReq quizID userName) = snd (JoinQuiz env qs quizID userName)"
| "serve env qs (SubmitAnswerReq quizID userID questionID answer) =
     snd (SubmitAnswer env qs quizID userID questionID answer)"
| "serve env qs (GetLeaderboardReq quizID) = snd (GetLeaderboard env qs quizID)"
| "serve env qs (StartQuizReq quizID) = snd (StartQuiz env qs quizID)"
| "serve env qs (EndQuizReq quizID) = snd (EndQuiz env qs quizID)"

fun serve_all :: "QuizService \<Rightarrow> (Env \<times> request) list \<Rightarrow> QuizService" where
  "serve_all qs [] = qs"
| "serve_all qs ((env, req) # rest) = serve_all (serve env qs req) rest"

text \<open>The struct literals of \<^verbatim>\<open>CreateQuiz\<close>, \<^verbatim>\<open>JoinQuiz\<close> and \<^verbatim>\<open>SubmitAnswer\<close>.\<close>

definition new_quiz :: "Env \<Rightarrow> string \<Rightarrow> Quiz" where
  "new_quiz env title =
     \<lparr>Quiz_ID = uuid env, Title = title, Questions = getSampleQuestions,
      Participants = [], Status = QuizStatusWaiting, CreatedAt = now env,
      StartedAt = None, EndedAt = None\<rparr>"

definition new_user :: "Env \<Rightarrow> string \<Rightarrow> User" where
  "new_user env userName =
     \<lparr>User_ID = uuid env, User_Name = userName, User_Score = 0, Answers = [], JoinedAt = now env\<rparr>"

definition new_answer :: "Env \<Rightarrow> Question \<Rightarrow> string \<Rightarrow> go_int \<Rightarrow> Answer" where
  "new_answer env question questionID answer =
     \<lparr>QuestionID = questionID, Answer_Answer = answer,
      Answer_Correct = (answer = Question_Correct question),
      Answer_Points = (if answer = Question_Correct question then Question_Points question else 0),
      AnsweredAt = now env\<rparr>"

text \<open>The four ways in which the service changes a quiz it holds.\<close>

inductive quiz_change :: "Quiz \<Rightarrow> Quiz \<Rightarrow> bool" where
  started: "Status q = QuizStatusWaiting \<Longrightarrow>
            quiz_change q (q\<lparr>Status := QuizStatusActive, StartedAt := Some t\<rparr>)"
| ended: "quiz_change q (q\<lparr>Status := QuizStatusEnded, EndedAt := Some t\<rparr>)"
| joined: "quiz_change q (AddParticipant q (new_user env userName))"
| answered: "map_of (Participants q) userID = Some user \<Longrightarrow>
             \<not> HasAnswered user questionID \<Longrightarrow>
             find_question (Questions q) questionID = Some question \<Longrightarrow>
             quiz_change q
               (q\<lparr>Participants :=
                    AList.update userID (AddAnswer user (new_answer env question questionID answer))
                      (Participants q)\<rparr>)"

text \<open>The quiz that a call finds under a key: in memory, or else in Redis.\<close>

definition found :: "QuizService \<Rightarrow> string \<Rightarrow> Quiz \<Rightarrow> bool" where
  "found qs k q =
     (Quizzes qs k = Some q \<or> (Quizzes qs k = None \<and> redis_quizzes (Redis qs) k = Some q))"

text \<open>
  What one call may do to the quizzes in memory and to those in Redis: a quiz in memory
  afterwards is the one found under its key before, a change of that one, or the quiz
  that the call creates, and no key is lost; a quiz in Redis afterwards was there before
  or is now in memory.
\<close>

definition mem_step :: "(string \<times> Quiz) option \<Rightarrow> QuizService \<Rightarrow> QuizService \<Rightarrow> bool" where
  "mem_step new qs qs' =
     ((\<forall>k q'. Quizzes qs' k = Some q' \<longrightarrow>
         found qs k q' \<or> (\<exists>q. found qs k q \<and> quiz_change q q') \<or> new = Some (k, q')) \<and>
      (\<forall>k. Quizzes qs k \<noteq> None \<longrightarrow> Quizzes qs' k \<noteq> None))"

fun created :: "Env \<Rightarrow> request \<Rightarrow> (string \<times> Quiz) option" where
  "created env (CreateQuizReq title) = Some (uuid env, new_quiz env title)"
| "created env req = None"

definition redis_step :: "QuizService \<Rightarrow> QuizService \<Rightarrow> bool" where
  "redis_step qs qs' =
     (\<forall>k q'. redis_quizzes (Redis qs') k = Some q' \<longrightarrow>
        redis_quizzes (Redis qs) k = Some q' \<or> q' \<in> ran (Quizzes qs'))"

text \<open>A property of every user of every quiz the service holds; the score recomputed from
  the answers; the two properties of a user that the claims are about.\<close>

definition all_users :: "(User \<Rightarrow> bool) \<Rightarrow> QuizService \<Rightarrow> bool" where
  "all_users U qs = (\<forall>q \<in> stored_quizzes qs. \<forall>(k, u) \<in> set (Participants q). U u)"

definition correct_points_sum :: "Answer list \<Rightarrow> go_int" where
  "correct_points_sum as = sum_list (map Answer_Points (filter Answer_Correct as))"

definition score_consistent :: "User \<Rightarrow> bool" where
  "score_consistent u = (User_Score u = correct_points_sum (Answers u))"

definition answers_unique :: "User \<Rightarrow> bool" where
  "answers_unique u = distinct (map QuestionID (Answers u))"

text \<open>
  The notions of the hub: a client whose channel was made and is not closed; a client
  whose queue has room; the client after a value is queued, and after its channel is
  closed; the registered pointers; and the state of the registry in which every
  registered pointer is registered once and has an open client behind it.
\<close>

definition open_client :: "Client \<Rightarrow> bool" where
  "open_client c = (case Send c of None \<Rightarrow> False | Some ch \<Rightarrow> \<not> closed ch)"

definition has_space :: "Client \<Rightarrow> bool" where
  "has_space c = (case Send c of None \<Rightarrow> False | Some ch \<Rightarrow> length (buf ch) < cap ch)"

definition enqueue :: "WebSocketMessage \<Rightarrow> Client \<Rightarrow> Client" where
  "enqueue data c = c\<lparr>Send := map_option (\<lambda>ch. ch\<lparr>buf := buf ch @ [data]\<rparr>) (Send c)\<rparr>"

definition close_client :: "Client \<Rightarrow> Client" where
  "close_client c = c\<lparr>Send := map_option (\<lambda>ch. ch\<lparr>closed := True\<rparr>) (Send c)\<rparr>"

definition registered :: "QuizService \<Rightarrow> nat \<Rightarrow> bool" where
  "registered qs p = (map_of (Clients qs) p \<noteq> None)"

definition hub_ok :: "QuizService \<Rightarrow> bool" where
  "hub_ok qs =
     (distinct (map fst (Clients qs)) \<and>
      (\<forall>(p, b) \<in> set (Clients qs).
         case objects qs p of None \<Rightarrow> False | Some c \<Rightarrow> open_client c))"

text \<open>
  A client after the first loop of a broadcast has visited it, and the pointers that the
  loop marks for removal.
\<close>

definition after_fan_out :: "string \<Rightarrow> WebSocketMessage \<Rightarrow> Client \<Rightarrow> Client" where
  "after_fan_out quizID data c =
     (if Client_QuizID c = quizID \<and> has_space c then enqueue data c else c)"

definition dead :: "string \<Rightarrow> (nat \<rightharpoonup> Client) \<Rightarrow> nat \<Rightarrow> bool" where
  "dead quizID h p =
     (case h p of None \<Rightarrow> False | Some c \<Rightarrow> Client_QuizID c = quizID \<and> \<not> has_space c)"

text \<open>What a client object is after a broadcast that reached it.\<close>

definition after_broadcast :: "string \<Rightarrow> WebSocketMessage \<Rightarrow> Client \<Rightarrow> Client" where
  "after_broadcast quizID data c =
     (if Client_QuizID c = quizID
      then (if has_space c then enqueue data c else close_client c)
      else c)"

text \<open>The order of the statuses.\<close>

fun status_rank :: "QuizStatus \<Rightarrow> nat" where
  "status_rank QuizStatusWaiting = 0"
| "status_rank QuizStatusActive = 1"
| "status_rank QuizStatusEnded = 2"

text \<open>
  No \<^verbatim>\<open>CreateQuiz\<close> of the sequence is given, by \<^verbatim>\<open>uuid\<close>, the identifier of a quiz
  that is in memory when it is called.
\<close>

fun fresh_ids :: "QuizService \<Rightarrow> (Env \<times> request) list \<Rightarrow> bool" where
  "fresh_ids qs [] = True"
| "fresh_ids qs ((env, req) # rest) =
     ((case req of CreateQuizReq title \<Rightarrow> Quizzes qs (uuid env) = None | _ \<Rightarrow> True) \<and>
      fresh_ids (serve env qs req) rest)"

text \<open>
  The order of a leaderboard: \<open>a\<close> may stand before \<open>b\<close> when the score of \<open>b\<close> is not
  above the score of \<open>a\<close>, as Go ints. An entry without its position.
\<close>

definition by_score :: "LeaderboardEntry \<Rightarrow> LeaderboardEntry \<Rightarrow> bool" where
  "by_score a b = (Entry_Score b \<le>s Entry_Score a)"

definition unranked :: "LeaderboardEntry \<Rightarrow> LeaderboardEntry" where
  "unranked e = e\<lparr>Position := 0\<rparr>"

text \<open>What the outer loop keeps when it is entered at \<open>i\<close>.\<close>

definition sorted_upto :: "nat \<Rightarrow> LeaderboardEntry list \<Rightarrow> bool" where
  "sorted_upto i es =
     (sorted_wrt by_score (take i es) \<and>
      (\<forall>x \<in> set (take i es). \<forall>y \<in> set (drop i es). by_score x y))"

text \<open>
  What happens to the registry while the program runs: \<^verbatim>\<open>HandleWebSocket\<close> makes a
  client at a new address and registers it; \<^verbatim>\<open>readPump\<close> unregisters its client when
  it ends; \<^verbatim>\<open>handleJoinQuiz\<close> binds its client to a quiz and a user; \<^verbatim>\<open>writePump\<close>
  takes the oldest value from its client's queue; and the service broadcasts.
\<close>

datatype hub_call =
    Connect nat string
  | Disconnect nat
  | Bind nat string string
  | Take nat
  | Broadcast bool "nat list" string WebSocketMessage

fun hub_do :: "QuizService \<Rightarrow> hub_call \<Rightarrow> QuizService" where
  "hub_do qs (Connect p cid) =
     (if objects qs p = None
      then snd (RegisterClient (qs\<lparr>objects := (objects qs)(p \<mapsto> new_client cid)\<rparr>) p)
      else qs)"
| "hub_do qs (Disconnect p) = snd (UnregisterClient qs p)"
| "hub_do qs (Bind p quizID userID) =
     (case objects qs p of
        None \<Rightarrow> qs
      | Some c \<Rightarrow> qs\<lparr>objects := (objects qs)(p \<mapsto> c\<lparr>Client_QuizID := quizID, Client_UserID := userID\<rparr>)\<rparr>)"
| "hub_do qs (Take p) =
     (case objects qs p of
        None \<Rightarrow> qs
      | Some c \<Rightarrow>
          qs\<lparr>objects := (objects qs)(p \<mapsto> c\<lparr>Send := map_option (\<lambda>ch. ch\<lparr>buf := tl (buf ch)\<rparr>) (Send c)\<rparr>)\<rparr>)"
| "hub_do qs (Broadcast pub_ok cs quizID message) = snd (broadcastToQuiz pub_ok cs qs quizID message)"

subsection \<open>A service with one quiz, for the examples\<close>

text \<open>
  An environment in which every Redis command succeeds and every \<^verbatim>\<open>range\<close> runs in
  the stored order, and a service without Redis that holds one started quiz with two
  participants, each with an answer to the first question.
\<close>

definition env0 :: Env where
  "env0 = \<lparr>uuid = ''c0ffee00'', now = 100, get_ok = True, set_quiz_ok = True, sadd_ok = True,
            set_user_ok = True, set_leaderboard_ok = True, publish_ok = (\<lambda>n. True),
            range_participants = [], range_clients = (\<lambda>n. [])\<rparr>"

definition alice :: User where
  "alice = \<lparr>User_ID = ''alice001'', User_Name = ''Alice'', User_Score = 10,
             Answers = [\<lparr>QuestionID = ''q1'', Answer_Answer = 0, Answer_Correct = True,
                         Answer_Points = 10, AnsweredAt = 5\<rparr>],
             JoinedAt = 1\<rparr>"

definition bob :: User where
  "bob = \<lparr>User_ID = ''bob00001'', User_Name = ''Bob'', User_Score = 0,
           Answers = [\<lparr>QuestionID = ''q1'', Answer_Answer = 3, Answer_Correct = False,
                       Answer_Points = 0, AnsweredAt = 6\<rparr>],
           JoinedAt = 2\<rparr>"

definition geo :: Quiz where
  "geo = \<lparr>Quiz_ID = ''geo00001'', Title = ''Geo'', Questions = getSampleQuestions,
           Participants = [(''alice001'', alice), (''bob00001'', bob)],
           Status = QuizStatusActive, CreatedAt = 0, StartedAt = Some 3, EndedAt = None\<rparr>"

definition service0 :: QuizService where
  "service0 = \<lparr>Quizzes = [''geo00001'' \<mapsto> geo], Clients = [], objects = Map.empty,
                Redis = \<lparr>client = None\<rparr>\<rparr>"

text \<open>
  Three registered clients: the first bound to the quiz with room in its queue, the
  second bound to it with a full queue, the third bound to another quiz.
\<close>

definition event0 :: WebSocketMessage where
  "event0 = \<lparr>Type = ''quiz_started'', Payload = QuizStartedPayload ''geo00001'' 3\<rparr>"

definition client1 :: Client where
  "client1 = \<lparr>Client_ID = ''c1'', Client_QuizID = ''geo00001'', Client_UserID = ''alice001'',
               Send = Some \<lparr>buf = [], cap = 256, closed = False\<rparr>\<rparr>"

definition client2 :: Client where
  "client2 = \<lparr>Client_ID = ''c2'', Client_QuizID = ''geo00001'', Client_UserID = ''bob00001'',
               Send = Some \<lparr>buf = [event0], cap = 1, closed = False\<rparr>\<rparr>"

definition client3 :: Client where
  "client3 = \<lparr>Client_ID = ''c3'', Client_QuizID = ''art00002'', Client_UserID = ''dave0001'',
               Send = Some \<lparr>buf = [], cap = 256, closed = False\<rparr>\<rparr>"

definition hub0 :: QuizService where
  "hub0 = \<lparr>Quizzes = [''geo00001'' \<mapsto> geo],
            Clients = [(1, True), (2, True), (3, True)],
            objects = [1 \<mapsto> client1, 2 \<mapsto> client2, 3 \<mapsto> client3],
            Redis = \<lparr>client = None\<rparr>\<rparr>"

text \<open>
  A service that has just started beside a Redis server which holds the quiz: nothing in
  memory yet.
\<close>

definition redis0 :: RedisStore where
  "redis0 = \<lparr>quiz_keys = [''geo00001'' \<mapsto> geo], user_keys = Map.empty,
              leaderboard_keys = Map.empty, active_quizzes = {''geo00001''}, published = []\<rparr>"

definition cold_service :: QuizService where
  "cold_service = \<lparr>Quizzes = Map.empty, Clients = [], objects = Map.empty,
                    Redis = \<lparr>client = Some redis0\<rparr>\<rparr>"

text \<open>A service that holds one quiz, just created, and an environment in which Redis fails.\<close>

definition lobby_service :: QuizService where
  "lobby_service = \<lparr>Quizzes = [''c0ffee00'' \<mapsto> new_quiz env0 ''Geo''], Clients = [],
                     objects = Map.empty, Redis = \<lparr>client = None\<rparr>\<rparr>"

definition env_down :: Env where
  "env_down = env0\<lparr>set_quiz_ok := False\<rparr>"

text \<open>The environment of a second call, made one tick later.\<close>

definition env_later :: Env where
  "env_later = env0\<lparr>now := 101\<rparr>"

text \<open>
  The quiz with a third participant, who joined last and has the score of the first.
\<close>

definition carol :: User where
  "carol = \<lparr>User_ID = ''carol001'', User_Name = ''Carol'', User_Score = 10,
             Answers = [\<lparr>QuestionID = ''q5'', Answer_Answer = 2, Answer_Correct = True,
                         Answer_Points = 10, AnsweredAt = 9\<rparr>],
             JoinedAt = 7\<rparr>"

definition tie_quiz :: Quiz where
  "tie_quiz =
     geo\<lparr>Participants := [(''bob00001'', bob), (''alice001'', alice), (''carol001'', carol)]\<rparr>"

section \<open>The calls, one by one\<close>

subsection \<open>What each call leaves in memory and in Redis\<close>

lemma redis_quizzes_PublishMessage [simp]:
  "redis_quizzes (snd (PublishMessage rs ok ch m)) = redis_quizzes rs"
  by (simp add: PublishMessage_def redis_quizzes_def split: option.splits)

lemma redis_quizzes_SaveUser [simp]:
  "redis_quizzes (snd (SaveUser rs ok u)) = redis_quizzes rs"
  by (simp add: SaveUser_def redis_quizzes_def split: option.splits)

lemma redis_quizzes_SaveLeaderboard [simp]:
  "redis_quizzes (snd (SaveLeaderboard rs ok quizID lb)) = redis_quizzes rs"
  by (simp add: SaveLeaderboard_def redis_quizzes_def split: option.splits)

lemma redis_quizzes_SaveQuiz:
  "redis_quizzes (snd (SaveQuiz rs ok1 ok2 q)) = redis_quizzes rs \<or>
   redis_quizzes (snd (SaveQuiz rs ok1 ok2 q)) = (redis_quizzes rs)(Quiz_ID q \<mapsto> q)"
  by (simp add: SaveQuiz_def redis_quizzes_def Let_def split: option.splits)

lemma ran_redis_quizzes_SaveQuiz:
  "ran (redis_quizzes (snd (SaveQuiz rs ok1 ok2 q))) \<subseteq> insert q (ran (redis_quizzes rs))"
  using redis_quizzes_SaveQuiz [of rs ok1 ok2 q]
  by (auto simp: ran_def split: if_splits)

lemma Quizzes_broadcastToQuiz [simp]:
  "Quizzes (snd (broadcastToQuiz ok cs qs quizID m)) = Quizzes qs"
  by (simp add: broadcastToQuiz_def split: prod.splits option.splits)

lemma redis_quizzes_broadcastToQuiz [simp]:
  "redis_quizzes (Redis (snd (broadcastToQuiz ok cs qs quizID m))) = redis_quizzes (Redis qs)"
  by (simp add: broadcastToQuiz_def split: prod.splits option.splits)

lemma stored_quizzes_broadcastToQuiz [simp]:
  "stored_quizzes (snd (broadcastToQuiz ok cs qs quizID m)) = stored_quizzes qs"
  by (simp add: stored_quizzes_def)

lemma GetQuiz_cases:
  "GetQuiz env qs quizID = (r, qs1) \<Longrightarrow>
     (\<exists>quiz. r = Inr quiz \<and> Quizzes qs quizID = Some quiz \<and> qs1 = qs) \<or>
     (\<exists>quiz. r = Inr quiz \<and> Quizzes qs quizID = None \<and> redis_quizzes (Redis qs) quizID = Some quiz
         \<and> qs1 = qs\<lparr>Quizzes := (Quizzes qs)(quizID \<mapsto> quiz)\<rparr>) \<or>
     (r = Inl (QuizNotFound quizID) \<and> Quizzes qs quizID = None \<and> qs1 = qs)"
  by (auto simp: GetQuiz_def Redis_GetQuiz_def redis_quizzes_def split: option.splits sum.splits if_splits)

lemma set_update_subset: "set (AList.update k v al) \<subseteq> insert (k, v) (set al)"
  by (induction al) auto

lemma GetQuiz_stored:
  assumes "GetQuiz env qs quizID = (r, qs1)"
  shows "stored_quizzes qs1 = stored_quizzes qs
      \<and> redis_quizzes (Redis qs1) = redis_quizzes (Redis qs)
      \<and> (\<forall>quiz. r = Inr quiz \<longrightarrow> quiz \<in> stored_quizzes qs \<and> Quizzes qs1 quizID = Some quiz)"
proof -
  consider
    (mem) q where "r = Inr q" "Quizzes qs quizID = Some q" "qs1 = qs"
  | (load) q where "r = Inr q" "Quizzes qs quizID = None"
      "redis_quizzes (Redis qs) quizID = Some q"
      "qs1 = qs\<lparr>Quizzes := (Quizzes qs)(quizID \<mapsto> q)\<rparr>"
  | (fail) "r = Inl (QuizNotFound quizID)" "qs1 = qs"
    using GetQuiz_cases [OF assms] by blast
  then show ?thesis
  proof cases
    case mem
    have "q \<in> ran (Quizzes qs)"
      using mem(2) by (rule ranI)
    then show ?thesis
      using mem by (simp add: stored_quizzes_def)
  next
    case load
    have "q \<in> ran (redis_quizzes (Redis qs))"
      using load(3) by (rule ranI)
    moreover have "ran ((Quizzes qs)(quizID \<mapsto> q)) = insert q (ran (Quizzes qs))"
      using load(2) by (rule ran_map_upd)
    ultimately show ?thesis
      using load(1,4) by (simp add: stored_quizzes_def insert_absorb)
  next
    case fail
    then show ?thesis by simp
  qed
qed

lemma Quizzes_save_quiz_and_user [simp]:
  "Quizzes (save_quiz_and_user env qs quiz user) = Quizzes qs"
  by (simp add: save_quiz_and_user_def Let_def)

lemma GetQuiz_found:
  assumes "GetQuiz env qs quizID = (Inr quiz, qs1)"
  shows "found qs quizID quiz" and "Quizzes qs1 = (Quizzes qs)(quizID \<mapsto> quiz)"
    and "Redis qs1 = Redis qs" and "Clients qs1 = Clients qs" and "objects qs1 = objects qs"
  using GetQuiz_cases [OF assms] by (auto simp: found_def)

lemma GetQuiz_Inl:
  assumes "GetQuiz env qs quizID = (Inl e, qs1)"
  shows "e = QuizNotFound quizID" and "qs1 = qs"
  using GetQuiz_cases [OF assms] by auto

lemma GetQuiz_mem [simp]:
  "Quizzes qs quizID = Some quiz \<Longrightarrow> GetQuiz env qs quizID = (Inr quiz, qs)"
  by (simp add: GetQuiz_def)

lemma broadcastLeaderboard_mem:
  assumes "Quizzes qs quizID = Some quiz"
  shows "Quizzes (snd (broadcastLeaderboard env n qs quizID)) = Quizzes qs"
    and "redis_quizzes (Redis (snd (broadcastLeaderboard env n qs quizID))) = redis_quizzes (Redis qs)"
  using assms by (simp_all add: broadcastLeaderboard_def GetLeaderboard_def Let_def)

lemma mem_step_same: "Quizzes qs' = Quizzes qs \<Longrightarrow> mem_step new qs qs'"
  by (simp add: mem_step_def found_def)

lemma mem_step_upd:
  assumes "found qs k q" and "q' = q \<or> quiz_change q q'"
    and "Quizzes qs' = (Quizzes qs)(k \<mapsto> q')"
  shows "mem_step new qs qs'"
proof -
  have "found qs j r \<or> (\<exists>q. found qs j q \<and> quiz_change q r) \<or> new = Some (j, r)"
    if r: "Quizzes qs' j = Some r" for j r
  proof (cases "j = k")
    case True
    then have "r = q'" using r assms(3) by simp
    then show ?thesis using assms(1,2) True by blast
  next
    case False
    then have "Quizzes qs j = Some r" using r assms(3) by simp
    then show ?thesis by (simp add: found_def)
  qed
  moreover have "Quizzes qs' j \<noteq> None" if "Quizzes qs j \<noteq> None" for j
    using that assms(3) by simp
  ultimately show ?thesis
    unfolding mem_step_def by blast
qed

lemma redis_step_same:
  "redis_quizzes (Redis qs') = redis_quizzes (Redis qs) \<Longrightarrow> redis_step qs qs'"
  by (simp add: redis_step_def)

lemma redis_step_save:
  assumes "redis_quizzes (Redis qs') = redis_quizzes (snd (SaveQuiz (Redis qs) ok1 ok2 q))"
    and "q \<in> ran (Quizzes qs')"
  shows "redis_step qs qs'"
  using redis_quizzes_SaveQuiz [of "Redis qs" ok1 ok2 q] assms
  by (auto simp: redis_step_def split: if_splits)

lemma SubmitAnswer_accept_eq:
  assumes "GetQuiz env qs quizID = (Inr quiz, qs1)"
    and "map_of (Participants quiz) userID = Some user"
    and "\<not> HasAnswered user questionID"
    and "find_question (Questions quiz) questionID = Some question"
  shows "SubmitAnswer env qs quizID userID questionID answer =
     (let user' = AddAnswer user (new_answer env question questionID answer);
          quiz' = quiz\<lparr>Participants := AList.update userID user' (Participants quiz)\<rparr>;
          qs3 = save_quiz_and_user env (qs1\<lparr>Quizzes := (Quizzes qs1)(quizID \<mapsto> quiz')\<rparr>) quiz' user'
      in (case broadcastToQuiz (publish_ok env 0) (range_clients env 0) qs3 quizID
                 \<lparr>Type = ''score_update'',
                  Payload = UserScorePayload userID (User_Name user') (GetScore user')\<rparr> of
            (Some e, qs4) \<Rightarrow> (Some e, qs4)
          | (None, qs4) \<Rightarrow> broadcastLeaderboard env 1 qs4 quizID))"
  using assms by (simp add: SubmitAnswer_def new_answer_def Let_def)

lemma after_broadcasts:
  assumes "Quizzes qs3 quizID = Some quiz'"
    and "r = (case broadcastToQuiz ok cs qs3 quizID m of
               (Some e, qs4) \<Rightarrow> (Some e, qs4)
             | (None, qs4) \<Rightarrow> broadcastLeaderboard env n qs4 quizID)"
  shows "Quizzes (snd r) = Quizzes qs3"
    and "redis_quizzes (Redis (snd r)) = redis_quizzes (Redis qs3)"
proof -
  obtain r4 qs4 where b: "broadcastToQuiz ok cs qs3 quizID m = (r4, qs4)"
    by (cases "broadcastToQuiz ok cs qs3 quizID m")
  have q4: "Quizzes qs4 = Quizzes qs3"
    using Quizzes_broadcastToQuiz [of ok cs qs3 quizID m] b by simp
  have r4: "redis_quizzes (Redis qs4) = redis_quizzes (Redis qs3)"
    using redis_quizzes_broadcastToQuiz [of ok cs qs3 quizID m] b by simp
  have m4: "Quizzes qs4 quizID = Some quiz'"
    using q4 assms(1) by simp
  show "Quizzes (snd r) = Quizzes qs3"
    using assms(2) b q4 broadcastLeaderboard_mem(1) [OF m4]
    by (cases r4) simp_all
  show "redis_quizzes (Redis (snd r)) = redis_quizzes (Redis qs3)"
    using assms(2) b r4 broadcastLeaderboard_mem(2) [OF m4]
    by (cases r4) simp_all
qed

lemma SubmitAnswer_accept:
  assumes "GetQuiz env qs quizID = (Inr quiz, qs1)"
    and "map_of (Participants quiz) userID = Some user"
    and "\<not> HasAnswered user questionID"
    and "find_question (Questions quiz) questionID = Some question"
    and "quiz' = quiz\<lparr>Participants :=
            AList.update userID (AddAnswer user (new_answer env question questionID answer))
              (Participants quiz)\<rparr>"
  shows "Quizzes (snd (SubmitAnswer env qs quizID userID questionID answer)) =
           (Quizzes qs)(quizID \<mapsto> quiz')"
    and "redis_quizzes (Redis (snd (SubmitAnswer env qs quizID userID questionID answer))) =
           redis_quizzes (snd (SaveQuiz (Redis qs) (set_quiz_ok env) (sadd_ok env) quiz'))"
proof -
  define user' where "user' = AddAnswer user (new_answer env question questionID answer)"
  define qs3 where
    "qs3 = save_quiz_and_user env (qs1\<lparr>Quizzes := (Quizzes qs1)(quizID \<mapsto> quiz')\<rparr>) quiz' user'"
  have eq: "SubmitAnswer env qs quizID userID questionID answer =
     (case broadcastToQuiz (publish_ok env 0) (range_clients env 0) qs3 quizID
                 \<lparr>Type = ''score_update'',
                  Payload = UserScorePayload userID (User_Name user') (GetScore user')\<rparr> of
            (Some e, qs4) \<Rightarrow> (Some e, qs4)
          | (None, qs4) \<Rightarrow> broadcastLeaderboard env 1 qs4 quizID)"
    using SubmitAnswer_accept_eq [OF assms(1-4), of answer]
    by (simp add: Let_def qs3_def user'_def assms(5))
  have q1: "Quizzes qs1 = (Quizzes qs)(quizID \<mapsto> quiz)" and r1: "Redis qs1 = Redis qs"
    using GetQuiz_found [OF assms(1)] by simp_all
  have q3: "Quizzes qs3 = (Quizzes qs)(quizID \<mapsto> quiz')"
    by (simp add: qs3_def q1)
  have r3: "redis_quizzes (Redis qs3) =
      redis_quizzes (snd (SaveQuiz (Redis qs) (set_quiz_ok env) (sadd_ok env) quiz'))"
    by (simp add: qs3_def save_quiz_and_user_def Let_def r1)
  have m3: "Quizzes qs3 quizID = Some quiz'"
    by (simp add: q3)
  show "Quizzes (snd (SubmitAnswer env qs quizID userID questionID answer)) =
           (Quizzes qs)(quizID \<mapsto> quiz')"
    using after_broadcasts(1) [OF m3 eq] q3 by simp
  show "redis_quizzes (Redis (snd (SubmitAnswer env qs quizID userID questionID answer))) =
           redis_quizzes (snd (SaveQuiz (Redis qs) (set_quiz_ok env) (sadd_ok env) quiz'))"
    using after_broadcasts(2) [OF m3 eq] r3 by simp
qed

lemma SubmitAnswer_reject:
  shows "GetQuiz env qs quizID = (Inl e, qs1) \<Longrightarrow>
           SubmitAnswer env qs quizID userID questionID answer = (Some (QuizNotFound quizID), qs)"
    and "GetQuiz env qs quizID = (Inr quiz, qs1) \<Longrightarrow> map_of (Participants quiz) userID = None \<Longrightarrow>
           SubmitAnswer env qs quizID userID questionID answer = (Some (UserNotFound userID), qs1)"
    and "GetQuiz env qs quizID = (Inr quiz, qs1) \<Longrightarrow> map_of (Participants quiz) userID = Some user \<Longrightarrow>
           HasAnswered user questionID \<Longrightarrow>
           SubmitAnswer env qs quizID userID questionID answer = (Some AlreadyAnswered, qs1)"
    and "GetQuiz env qs quizID = (Inr quiz, qs1) \<Longrightarrow> map_of (Participants quiz) userID = Some user \<Longrightarrow>
           \<not> HasAnswered user questionID \<Longrightarrow> find_question (Questions quiz) questionID = None \<Longrightarrow>
           SubmitAnswer env qs quizID userID questionID answer = (Some (QuestionNotFound questionID), qs1)"
proof -
  show "GetQuiz env qs quizID = (Inl e, qs1) \<Longrightarrow>
           SubmitAnswer env qs quizID userID questionID answer = (Some (QuizNotFound quizID), qs)"
    using GetQuiz_Inl [of env qs quizID e qs1] by (simp add: SubmitAnswer_def)
qed (simp_all add: SubmitAnswer_def)

text \<open>The ways in which a call to \<open>SubmitAnswer\<close> ends.\<close>

lemma SubmitAnswer_cases:
  obtains
    (no_quiz) "SubmitAnswer env qs quizID userID questionID answer = (Some (QuizNotFound quizID), qs)"
      "fst (GetQuiz env qs quizID) = Inl (QuizNotFound quizID)"
  | (no_user) quiz where "GetQuiz env qs quizID = (Inr quiz, snd (GetQuiz env qs quizID))"
      "map_of (Participants quiz) userID = None"
      "SubmitAnswer env qs quizID userID questionID answer =
         (Some (UserNotFound userID), snd (GetQuiz env qs quizID))"
  | (duplicate) quiz user where "GetQuiz env qs quizID = (Inr quiz, snd (GetQuiz env qs quizID))"
      "map_of (Participants quiz) userID = Some user" "HasAnswered user questionID"
      "SubmitAnswer env qs quizID userID questionID answer =
         (Some AlreadyAnswered, snd (GetQuiz env qs quizID))"
  | (no_question) quiz user where "GetQuiz env qs quizID = (Inr quiz, snd (GetQuiz env qs quizID))"
      "map_of (Participants quiz) userID = Some user" "\<not> HasAnswered user questionID"
      "find_question (Questions quiz) questionID = None"
      "SubmitAnswer env qs quizID userID questionID answer =
         (Some (QuestionNotFound questionID), snd (GetQuiz env qs quizID))"
  | (accept) quiz user question where "GetQuiz env qs quizID = (Inr quiz, snd (GetQuiz env qs quizID))"
      "map_of (Participants quiz) userID = Some user" "\<not> HasAnswered user questionID"
      "find_question (Questions quiz) questionID = Some question"
proof (cases "GetQuiz env qs quizID")
  case (Pair r qs1)
  show thesis
  proof (cases r)
    case (Inl e)
    then have "e = QuizNotFound quizID"
      using GetQuiz_Inl(1) [of env qs quizID e qs1] Pair by simp
    then show thesis
      using no_quiz SubmitAnswer_reject(1) [of env qs quizID e qs1] Pair Inl by simp
  next
    case (Inr quiz)
    then have g: "GetQuiz env qs quizID = (Inr quiz, snd (GetQuiz env qs quizID))"
      using Pair by simp
    show thesis
    proof (cases "map_of (Participants quiz) userID")
      case None
      then show thesis using no_user g SubmitAnswer_reject(2) [OF g] by blast
    next
      case (Some user)
      show thesis
      proof (cases "HasAnswered user questionID")
        case True
        then show thesis using duplicate g Some SubmitAnswer_reject(3) [OF g Some] by blast
      next
        case False
        show thesis
        proof (cases "find_question (Questions quiz) questionID")
          case None
          then show thesis
            using no_question g Some False SubmitAnswer_reject(4) [OF g Some False] by blast
        next
          case (Some question)
          then show thesis using accept g \<open>map_of (Participants quiz) userID = Some user\<close> False by blast
        qed
      qed
    qed
  qed
qed

lemma GetQuiz_steps:
  "mem_step new qs (snd (GetQuiz env qs quizID)) \<and> redis_step qs (snd (GetQuiz env qs quizID))"
proof -
  obtain r qs1 where g: "GetQuiz env qs quizID = (r, qs1)"
    by (cases "GetQuiz env qs quizID")
  have "redis_quizzes (Redis qs1) = redis_quizzes (Redis qs)"
    using GetQuiz_stored [OF g] by simp
  then have "redis_step qs (snd (GetQuiz env qs quizID))"
    using g by (simp add: redis_step_same)
  moreover have "mem_step new qs (snd (GetQuiz env qs quizID))"
  proof (cases r)
    case (Inl e)
    then show ?thesis using GetQuiz_Inl(2) [of env qs quizID e qs1] g by (simp add: mem_step_same)
  next
    case (Inr quiz)
    then have "found qs quizID quiz" "Quizzes qs1 = (Quizzes qs)(quizID \<mapsto> quiz)"
      using GetQuiz_found(1,2) [of env qs quizID quiz qs1] g by simp_all
    then show ?thesis
      using mem_step_upd [of qs quizID quiz quiz qs1 new] g by simp
  qed
  ultimately show ?thesis by simp
qed

lemma SubmitAnswer_steps:
  "mem_step new qs (snd (SubmitAnswer env qs quizID userID questionID answer)) \<and>
   redis_step qs (snd (SubmitAnswer env qs quizID userID questionID answer))"
proof -
  let ?qs' = "snd (SubmitAnswer env qs quizID userID questionID answer)"
  show "mem_step new qs ?qs' \<and> redis_step qs ?qs'"
  proof (cases rule: SubmitAnswer_cases [of env qs quizID userID questionID answer])
    case no_quiz
    then show ?thesis by (simp add: mem_step_same redis_step_same)
  next
    case (no_user quiz)
    then show ?thesis using GetQuiz_steps [of new qs env quizID] by simp
  next
    case (duplicate quiz user)
    then show ?thesis using GetQuiz_steps [of new qs env quizID] by simp
  next
    case (no_question quiz user)
    then show ?thesis using GetQuiz_steps [of new qs env quizID] by simp
  next
    case (accept quiz user question)
    define quiz' where "quiz' = quiz\<lparr>Participants :=
            AList.update userID (AddAnswer user (new_answer env question questionID answer))
              (Participants quiz)\<rparr>"
    note acc = SubmitAnswer_accept [OF accept quiz'_def]
    have f: "found qs quizID quiz"
      using GetQuiz_found(1) [OF accept(1)] .
    have c: "quiz_change quiz quiz'"
      unfolding quiz'_def using accept(2-4) by (rule quiz_change.answered)
    have "mem_step new qs ?qs'"
      using mem_step_upd [OF f _ acc(1)] c by simp
    moreover have "Quizzes ?qs' quizID = Some quiz'"
      using acc(1) by simp
    then have "quiz' \<in> ran (Quizzes ?qs')"
      by (rule ranI)
    then have "redis_step qs ?qs'"
      using redis_step_save [OF acc(2)] by simp
    ultimately show ?thesis by simp
  qed
qed

lemma JoinQuiz_fail:
  "GetQuiz env qs quizID = (Inl e, qs1) \<Longrightarrow>
     JoinQuiz env qs quizID userName = (Inl (QuizNotFound quizID), qs)"
  using GetQuiz_Inl [of env qs quizID e qs1] by (simp add: JoinQuiz_def)

lemma JoinQuiz_ok:
  assumes "GetQuiz env qs quizID = (Inr quiz, qs1)"
    and "quiz' = AddParticipant quiz (new_user env userName)"
  shows "Quizzes (snd (JoinQuiz env qs quizID userName)) = (Quizzes qs)(quizID \<mapsto> quiz')"
    and "redis_quizzes (Redis (snd (JoinQuiz env qs quizID userName))) =
           redis_quizzes (snd (SaveQuiz (Redis qs) (set_quiz_ok env) (sadd_ok env) quiz'))"
proof -
  define qs3 where
    "qs3 = save_quiz_and_user env (qs1\<lparr>Quizzes := (Quizzes qs1)(quizID \<mapsto> quiz')\<rparr>) quiz'
             (new_user env userName)"
  define m where "m = \<lparr>Type = ''user_joined'', Payload = UserJoinedPayload (uuid env) userName\<rparr>"
  obtain r4 qs4 where b4: "broadcastToQuiz (publish_ok env 0) (range_clients env 0) qs3 quizID m = (r4, qs4)"
    by (cases "broadcastToQuiz (publish_ok env 0) (range_clients env 0) qs3 quizID m")
  obtain r5 qs5 where b5: "broadcastLeaderboard env 1 qs4 quizID = (r5, qs5)"
    by (cases "broadcastLeaderboard env 1 qs4 quizID")
  have eq: "snd (JoinQuiz env qs quizID userName) = (case r4 of Some e \<Rightarrow> qs4 | None \<Rightarrow> qs5)"
    using assms b4 b5
    by (simp add: JoinQuiz_def Let_def new_user_def qs3_def m_def split: option.splits)
  have q1: "Quizzes qs1 = (Quizzes qs)(quizID \<mapsto> quiz)" and r1: "Redis qs1 = Redis qs"
    using GetQuiz_found [OF assms(1)] by simp_all
  have q3: "Quizzes qs3 = (Quizzes qs)(quizID \<mapsto> quiz')"
    by (simp add: qs3_def q1)
  have r3: "redis_quizzes (Redis qs3) =
      redis_quizzes (snd (SaveQuiz (Redis qs) (set_quiz_ok env) (sadd_ok env) quiz'))"
    by (simp add: qs3_def save_quiz_and_user_def Let_def r1)
  have q4: "Quizzes qs4 = Quizzes qs3"
    using Quizzes_broadcastToQuiz [of "publish_ok env 0" "range_clients env 0" qs3 quizID m] b4 by simp
  have r4: "redis_quizzes (Redis qs4) = redis_quizzes (Redis qs3)"
    using redis_quizzes_broadcastToQuiz [of "publish_ok env 0" "range_clients env 0" qs3 quizID m] b4
    by simp
  have m4: "Quizzes qs4 quizID = Some quiz'"
    by (simp add: q4 q3)
  have q5: "Quizzes qs5 = Quizzes qs4" and r5: "redis_quizzes (Redis qs5) = redis_quizzes (Redis qs4)"
    using broadcastLeaderboard_mem [OF m4, of env 1] b5 by simp_all
  show "Quizzes (snd (JoinQuiz env qs quizID userName)) = (Quizzes qs)(quizID \<mapsto> quiz')"
    by (cases r4) (simp_all add: eq q5 q4 q3)
  show "redis_quizzes (Redis (snd (JoinQuiz env qs quizID userName))) =
           redis_quizzes (snd (SaveQuiz (Redis qs) (set_quiz_ok env) (sadd_ok env) quiz'))"
    by (cases r4) (simp_all add: eq r5 r4 r3)
qed

lemma StartQuiz_fail:
  shows "GetQuiz env qs quizID = (Inl e, qs1) \<Longrightarrow>
           StartQuiz env qs quizID = (Some (QuizNotFound quizID), qs)"
    and "GetQuiz env qs quizID = (Inr quiz, qs1) \<Longrightarrow> Status quiz \<noteq> QuizStatusWaiting \<Longrightarrow>
           StartQuiz env qs quizID = (Some QuizNotWaiting, qs1)"
  using GetQuiz_Inl [of env qs quizID e qs1] by (simp_all add: StartQuiz_def)

lemma StartQuiz_ok:
  assumes "GetQuiz env qs quizID = (Inr quiz, qs1)" and "Status quiz = QuizStatusWaiting"
    and "quiz' = quiz\<lparr>Status := QuizStatusActive, StartedAt := Some (now env)\<rparr>"
  shows "Quizzes (snd (StartQuiz env qs quizID)) = (Quizzes qs)(quizID \<mapsto> quiz')"
    and "redis_quizzes (Redis (snd (StartQuiz env qs quizID))) =
           redis_quizzes (snd (SaveQuiz (Redis qs) (set_quiz_ok env) (sadd_ok env) quiz'))"
  using assms GetQuiz_found(2,3) [OF assms(1)]
  by (simp_all add: StartQuiz_def Let_def)

lemma EndQuiz_fail:
  "GetQuiz env qs quizID = (Inl e, qs1) \<Longrightarrow> EndQuiz env qs quizID = (Some (QuizNotFound quizID), qs)"
  using GetQuiz_Inl [of env qs quizID e qs1] by (simp add: EndQuiz_def)

lemma EndQuiz_ok:
  assumes "GetQuiz env qs quizID = (Inr quiz, qs1)"
    and "quiz' = quiz\<lparr>Status := QuizStatusEnded, EndedAt := Some (now env)\<rparr>"
  shows "Quizzes (snd (EndQuiz env qs quizID)) = (Quizzes qs)(quizID \<mapsto> quiz')"
    and "redis_quizzes (Redis (snd (EndQuiz env qs quizID))) =
           redis_quizzes (snd (SaveQuiz (Redis qs) (set_quiz_ok env) (sadd_ok env) quiz'))"
  using assms GetQuiz_found(2,3) [OF assms(1)]
  by (simp_all add: EndQuiz_def Let_def)

lemma CreateQuiz_cases:
  obtains
    (failed) "client (Redis qs) \<noteq> None" "\<not> set_quiz_ok env"
      "CreateQuiz env qs title = (Inl CreateSaveFailed, qs)"
  | (created) "client (Redis qs) = None \<or> set_quiz_ok env"
      "fst (CreateQuiz env qs title) = Inr (new_quiz env title)"
      "Quizzes (snd (CreateQuiz env qs title)) = (Quizzes qs)(uuid env \<mapsto> new_quiz env title)"
      "Redis (snd (CreateQuiz env qs title)) =
         snd (SaveQuiz (Redis qs) (set_quiz_ok env) (sadd_ok env) (new_quiz env title))"
      "Clients (snd (CreateQuiz env qs title)) = Clients qs"
      "objects (snd (CreateQuiz env qs title)) = objects qs"
proof (cases "client (Redis qs) \<noteq> None \<and> \<not> set_quiz_ok env")
  case True
  then have "CreateQuiz env qs title = (Inl CreateSaveFailed, qs)"
    by (auto simp: CreateQuiz_def SaveQuiz_def Let_def)
  then show thesis using failed True by simp
next
  case False
  then have "fst (SaveQuiz (Redis qs) (set_quiz_ok env) (sadd_ok env) (new_quiz env title)) = None"
    by (auto simp: SaveQuiz_def Let_def split: option.splits)
  then obtain rs where "SaveQuiz (Redis qs) (set_quiz_ok env) (sadd_ok env) (new_quiz env title) = (None, rs)"
    by (cases "SaveQuiz (Redis qs) (set_quiz_ok env) (sadd_ok env) (new_quiz env title)") simp
  then have "CreateQuiz env qs title =
      (Inr (new_quiz env title),
       qs\<lparr>Redis := snd (SaveQuiz (Redis qs) (set_quiz_ok env) (sadd_ok env) (new_quiz env title)),
          Quizzes := (Quizzes qs)(uuid env \<mapsto> new_quiz env title)\<rparr>)"
    by (simp add: CreateQuiz_def Let_def new_quiz_def)
  then show thesis using created False by simp
qed

lemma steps_of_update:
  assumes "found qs k q" and "q' = q \<or> quiz_change q q'"
    and "Quizzes qs' = (Quizzes qs)(k \<mapsto> q')"
    and "redis_quizzes (Redis qs') = redis_quizzes (snd (SaveQuiz (Redis qs) ok1 ok2 q'))"
  shows "mem_step new qs qs' \<and> redis_step qs qs'"
proof -
  have "Quizzes qs' k = Some q'"
    using assms(3) by simp
  then have "q' \<in> ran (Quizzes qs')"
    by (rule ranI)
  then show ?thesis
    using mem_step_upd [OF assms(1-3)] redis_step_save [OF assms(4)] by simp
qed

lemma JoinQuiz_steps:
  "mem_step new qs (snd (JoinQuiz env qs quizID userName)) \<and>
   redis_step qs (snd (JoinQuiz env qs quizID userName))"
proof (cases "GetQuiz env qs quizID")
  case (Pair r qs1)
  show ?thesis
  proof (cases r)
    case (Inl e)
    then show ?thesis
      using JoinQuiz_fail [of env qs quizID e qs1 userName] Pair
      by (simp add: mem_step_same redis_step_same)
  next
    case (Inr quiz)
    then have g: "GetQuiz env qs quizID = (Inr quiz, qs1)" using Pair by simp
    show ?thesis
      using steps_of_update [OF GetQuiz_found(1) [OF g] _ JoinQuiz_ok [OF g refl]]
        quiz_change.joined [of quiz env userName] by simp
  qed
qed

lemma StartQuiz_steps:
  "mem_step new qs (snd (StartQuiz env qs quizID)) \<and> redis_step qs (snd (StartQuiz env qs quizID))"
proof (cases "GetQuiz env qs quizID")
  case (Pair r qs1)
  show ?thesis
  proof (cases r)
    case (Inl e)
    then show ?thesis
      using StartQuiz_fail(1) [of env qs quizID e qs1] Pair
      by (simp add: mem_step_same redis_step_same)
  next
    case (Inr quiz)
    then have g: "GetQuiz env qs quizID = (Inr quiz, qs1)" using Pair by simp
    show ?thesis
    proof (cases "Status quiz = QuizStatusWaiting")
      case True
      show ?thesis
        using steps_of_update [OF GetQuiz_found(1) [OF g] _ StartQuiz_ok [OF g True refl]]
          quiz_change.started [OF True, of "now env"] by simp
    next
      case False
      then show ?thesis
        using StartQuiz_fail(2) [OF g False] GetQuiz_steps [of new qs env quizID] g by simp
    qed
  qed
qed

lemma EndQuiz_steps:
  "mem_step new qs (snd (EndQuiz env qs quizID)) \<and> redis_step qs (snd (EndQuiz env qs quizID))"
proof (cases "GetQuiz env qs quizID")
  case (Pair r qs1)
  show ?thesis
  proof (cases r)
    case (Inl e)
    then show ?thesis
      using EndQuiz_fail [of env qs quizID e qs1] Pair
      by (simp add: mem_step_same redis_step_same)
  next
    case (Inr quiz)
    then have g: "GetQuiz env qs quizID = (Inr quiz, qs1)" using Pair by simp
    show ?thesis
      using steps_of_update [OF GetQuiz_found(1) [OF g] _ EndQuiz_ok [OF g refl]]
        quiz_change.ended [of quiz "now env"] by simp
  qed
qed

lemma GetLeaderboard_steps:
  "mem_step new qs (snd (GetLeaderboard env qs quizID)) \<and>
   redis_step qs (snd (GetLeaderboard env qs quizID))"
proof (cases "GetQuiz env qs quizID")
  case (Pair r qs1)
  have "Quizzes (snd (GetLeaderboard env qs quizID)) = Quizzes qs1"
    and "redis_quizzes (Redis (snd (GetLeaderboard env qs quizID))) = redis_quizzes (Redis qs1)"
    using Pair by (cases r; simp add: GetLeaderboard_def Let_def)+
  then show ?thesis
    using GetQuiz_steps [of new qs env quizID] Pair
    by (simp add: mem_step_def redis_step_def)
qed

lemma CreateQuiz_steps:
  "mem_step (Some (uuid env, new_quiz env title)) qs (snd (CreateQuiz env qs title)) \<and>
   redis_step qs (snd (CreateQuiz env qs title))"
proof (cases rule: CreateQuiz_cases [of qs env title])
  case failed
  then show ?thesis by (simp add: mem_step_same redis_step_same)
next
  case created
  let ?qs' = "snd (CreateQuiz env qs title)"
  have "found qs k q' \<or> (\<exists>q. found qs k q \<and> quiz_change q q') \<or>
        Some (uuid env, new_quiz env title) = Some (k, q')"
    if "Quizzes ?qs' k = Some q'" for k q'
  proof -
    have "(k = uuid env \<and> q' = new_quiz env title) \<or> Quizzes qs k = Some q'"
      using that created(3) by (auto split: if_splits)
    then show ?thesis by (auto simp: found_def)
  qed
  moreover have "Quizzes ?qs' k \<noteq> None" if "Quizzes qs k \<noteq> None" for k
    using that created(3) by simp
  ultimately have "mem_step (Some (uuid env, new_quiz env title)) qs ?qs'"
    unfolding mem_step_def by blast
  moreover have "Quizzes ?qs' (uuid env) = Some (new_quiz env title)"
    using created(3) by simp
  then have "new_quiz env title \<in> ran (Quizzes ?qs')"
    by (rule ranI)
  then have "redis_step qs ?qs'"
    using redis_step_save [of ?qs' qs "set_quiz_ok env" "sadd_ok env" "new_quiz env title"] created(4)
    by simp
  ultimately show ?thesis by simp
qed

lemma serve_steps:
  "mem_step (created env req) qs (serve env qs req) \<and> redis_step qs (serve env qs req)"
proof (cases req)
  case (CreateQuizReq title)
  then show ?thesis using CreateQuiz_steps [of env title qs] by simp
next
  case (GetQuizReq quizID)
  then show ?thesis using GetQuiz_steps [of None qs env quizID] by simp
next
  case (JoinQuizReq quizID userName)
  then show ?thesis using JoinQuiz_steps [of None qs env quizID userName] by simp
next
  case (SubmitAnswerReq quizID userID questionID answer)
  then show ?thesis using SubmitAnswer_steps [of None qs env quizID userID questionID answer] by simp
next
  case (GetLeaderboardReq quizID)
  then show ?thesis using GetLeaderboard_steps [of None qs env quizID] by simp
next
  case (StartQuizReq quizID)
  then show ?thesis using StartQuiz_steps [of None qs env quizID] by simp
next
  case (EndQuizReq quizID)
  then show ?thesis using EndQuiz_steps [of None qs env quizID] by simp
qed

subsection \<open>Properties of the users that every call keeps\<close>

lemma quiz_change_users:
  assumes new: "\<And>env name. U (new_user env name)"
    and add: "\<And>u env question questionID answer. U u \<Longrightarrow> \<not> HasAnswered u questionID \<Longrightarrow>
                U (AddAnswer u (new_answer env question questionID answer))"
    and ch: "quiz_change q q'"
    and inv: "\<forall>(k, u) \<in> set (Participants q). U u"
  shows "\<forall>(k, u) \<in> set (Participants q'). U u"
  using ch
proof cases
  case (started t)
  then show ?thesis using inv by simp
next
  case (ended t)
  then show ?thesis using inv by simp
next
  case (joined env userName)
  have "set (Participants q') \<subseteq> insert (uuid env, new_user env userName) (set (Participants q))"
    using joined set_update_subset [of "uuid env" "new_user env userName" "Participants q"]
    by (simp add: AddParticipant_def new_user_def)
  then show ?thesis using inv new [of env userName] by auto
next
  case (answered userID user questionID question env answer)
  have "(userID, user) \<in> set (Participants q)"
    using answered(2) by (rule map_of_SomeD)
  then have "U user" using inv by auto
  then have "U (AddAnswer user (new_answer env question questionID answer))"
    using add answered(3) by simp
  moreover have "set (Participants q') \<subseteq>
      insert (userID, AddAnswer user (new_answer env question questionID answer)) (set (Participants q))"
    using answered(1) set_update_subset by simp
  ultimately show ?thesis using inv by auto
qed

lemma found_stored: "found qs k q \<Longrightarrow> q \<in> stored_quizzes qs"
  by (auto simp: found_def stored_quizzes_def intro: ranI)

lemma all_users_step:
  assumes new: "\<And>env name. U (new_user env name)"
    and add: "\<And>u env question questionID answer. U u \<Longrightarrow> \<not> HasAnswered u questionID \<Longrightarrow>
                U (AddAnswer u (new_answer env question questionID answer))"
    and mem: "mem_step new qs qs'" and red: "redis_step qs qs'"
    and fresh: "\<And>k q. new = Some (k, q) \<Longrightarrow> Participants q = []"
    and inv: "all_users U qs"
  shows "all_users U qs'"
proof -
  have in_mem: "\<forall>(k, u) \<in> set (Participants q'). U u" if h: "Quizzes qs' j = Some q'" for j q'
  proof -
    consider "found qs j q'" | q where "found qs j q" "quiz_change q q'"
      | "new = Some (j, q')"
      using mem h unfolding mem_step_def by blast
    then show ?thesis
    proof cases
      case 1
      then show ?thesis using inv found_stored unfolding all_users_def by blast
    next
      case 2
      have "\<forall>(k, u) \<in> set (Participants q). U u"
        using inv found_stored [OF 2(1)] unfolding all_users_def by blast
      then show ?thesis
        using quiz_change_users [of U, OF new add 2(2)] by blast
    next
      case 3
      then show ?thesis using fresh by simp
    qed
  qed
  show ?thesis
    unfolding all_users_def
  proof
    fix q'
    assume "q' \<in> stored_quizzes qs'"
    then consider j where "Quizzes qs' j = Some q'"
      | j where "redis_quizzes (Redis qs') j = Some q'"
      by (auto simp: stored_quizzes_def ran_def)
    then show "\<forall>(k, u) \<in> set (Participants q'). U u"
    proof cases
      case 1
      then show ?thesis by (rule in_mem)
    next
      case 2
      then consider "redis_quizzes (Redis qs) j = Some q'" | "q' \<in> ran (Quizzes qs')"
        using red unfolding redis_step_def by blast
      then show ?thesis
      proof cases
        case 1
        then have "q' \<in> stored_quizzes qs"
          by (auto simp: stored_quizzes_def intro: ranI)
        then show ?thesis using inv unfolding all_users_def by blast
      next
        case 2
        then obtain i where "Quizzes qs' i = Some q'" by (auto simp: ran_def)
        then show ?thesis by (rule in_mem)
      qed
    qed
  qed
qed

lemma all_users_serve_all:
  assumes new: "\<And>env name. U (new_user env name)"
    and add: "\<And>u env question questionID answer. U u \<Longrightarrow> \<not> HasAnswered u questionID \<Longrightarrow>
                U (AddAnswer u (new_answer env question questionID answer))"
  shows "all_users U qs \<Longrightarrow> all_users U (serve_all qs reqs)"
proof (induction reqs arbitrary: qs)
  case Nil
  then show ?case by simp
next
  case (Cons a reqs)
  obtain env req where a: "a = (env, req)" by (cases a)
  have "Participants q = []" if "created env req = Some (k, q)" for k q
    using that by (cases req) (auto simp: new_quiz_def)
  then have "all_users U (serve env qs req)"
    using all_users_step [of U "created env req" qs "serve env qs req", OF new add]
      serve_steps [of env req qs] Cons.prems
    by blast
  then show ?case using Cons.IH a by simp
qed

lemma HasAnswered_iff: "HasAnswered u questionID \<longleftrightarrow> questionID \<in> QuestionID ` set (Answers u)"
proof -
  have "HasAnswered_loop as questionID \<longleftrightarrow> questionID \<in> QuestionID ` set as" for as
    by (induction as) auto
  then show ?thesis by (simp add: HasAnswered_def)
qed

lemma find_question_None_iff:
  "find_question questions questionID = None \<longleftrightarrow> questionID \<notin> Question_ID ` set questions"
  by (induction questions) auto

lemma find_question_first:
  assumes "i < length questions" and "Question_ID (questions ! i) = questionID"
    and "\<forall>j<i. Question_ID (questions ! j) \<noteq> questionID"
  shows "find_question questions questionID = Some (questions ! i)"
  using assms
proof (induction questions arbitrary: i)
  case Nil
  then show ?case by simp
next
  case (Cons q rest)
  show ?case
  proof (cases i)
    case 0
    then show ?thesis using Cons.prems by simp
  next
    case (Suc k)
    have "Question_ID q \<noteq> questionID"
      using Cons.prems(3) Suc by auto
    moreover have "find_question rest questionID = Some (rest ! k)"
    proof (rule Cons.IH)
      show "k < length rest" using Cons.prems(1) Suc by simp
      show "Question_ID (rest ! k) = questionID" using Cons.prems(2) Suc by simp
      show "\<forall>j<k. Question_ID (rest ! j) \<noteq> questionID"
      proof (intro allI impI)
        fix j assume "j < k"
        then have "Suc j < i" using Suc by simp
        then have "Question_ID ((q # rest) ! Suc j) \<noteq> questionID"
          using Cons.prems(3) by blast
        then show "Question_ID (rest ! j) \<noteq> questionID" by simp
      qed
    qed
    ultimately show ?thesis using Suc by simp
  qed
qed

lemma GetQuiz_absent:
  assumes "Quizzes qs quizID = None"
    and "redis_quizzes (Redis qs) quizID = None \<or> \<not> get_ok env"
  shows "GetQuiz env qs quizID = (Inl (QuizNotFound quizID), qs)"
  using assms
  by (auto simp: GetQuiz_def Redis_GetQuiz_def redis_quizzes_def split: option.splits)

lemma GetQuiz_present:
  assumes "found qs quizID quiz" and "Quizzes qs quizID \<noteq> None \<or> get_ok env"
  shows "GetQuiz env qs quizID = (Inr quiz, qs\<lparr>Quizzes := (Quizzes qs)(quizID \<mapsto> quiz)\<rparr>)"
proof (cases "Quizzes qs quizID")
  case None
  then show ?thesis
    using assms
    by (auto simp: found_def GetQuiz_def Redis_GetQuiz_def redis_quizzes_def split: option.splits)
next
  case (Some q)
  then have "q = quiz"
    using assms(1) by (simp add: found_def)
  moreover have "(Quizzes qs)(quizID \<mapsto> q) = Quizzes qs"
    using Some by (simp add: fun_upd_idem)
  ultimately show ?thesis
    using Some by (simp add: GetQuiz_def)
qed

lemma correct_points_sum_snoc:
  "correct_points_sum (as @ [a]) =
     correct_points_sum as + (if Answer_Correct a then Answer_Points a else 0)"
  by (simp add: correct_points_sum_def)

lemma score_consistent_AddAnswer: "score_consistent u \<Longrightarrow> score_consistent (AddAnswer u a)"
  by (simp add: score_consistent_def AddAnswer_def Let_def correct_points_sum_snoc)

lemma score_consistent_new_user: "score_consistent (new_user env name)"
  by (simp add: score_consistent_def new_user_def correct_points_sum_def)

lemma answers_unique_AddAnswer:
  "answers_unique u \<Longrightarrow> \<not> HasAnswered u (QuestionID a) \<Longrightarrow> answers_unique (AddAnswer u a)"
  by (auto simp: answers_unique_def AddAnswer_def Let_def HasAnswered_iff)

lemma JoinQuiz_result:
  assumes "fst (JoinQuiz env qs quizID userName) = Inr user"
  shows "user = new_user env userName"
  using assms
  by (auto simp: JoinQuiz_def Let_def new_user_def split: prod.splits sum.splits option.splits)

lemma SubmitAnswer_twice:
  assumes "fst (SubmitAnswer env qs quizID userID questionID answer) = None"
  shows "SubmitAnswer env' (snd (SubmitAnswer env qs quizID userID questionID answer))
           quizID userID questionID answer' =
         (Some AlreadyAnswered, snd (SubmitAnswer env qs quizID userID questionID answer))"
proof (cases rule: SubmitAnswer_cases [of env qs quizID userID questionID answer])
  case no_quiz
  then show ?thesis using assms by simp
next
  case (no_user quiz)
  then show ?thesis using assms by simp
next
  case (duplicate quiz user)
  then show ?thesis using assms by simp
next
  case (no_question quiz user)
  then show ?thesis using assms by simp
next
  case (accept quiz user question)
  let ?qs' = "snd (SubmitAnswer env qs quizID userID questionID answer)"
  define user' where "user' = AddAnswer user (new_answer env question questionID answer)"
  define quiz' where "quiz' = quiz\<lparr>Participants := AList.update userID user' (Participants quiz)\<rparr>"
  have "Quizzes ?qs' = (Quizzes qs)(quizID \<mapsto> quiz')"
    using SubmitAnswer_accept(1) [OF accept] by (simp add: quiz'_def user'_def)
  then have g: "GetQuiz env' ?qs' quizID = (Inr quiz', ?qs')"
    by simp
  have u: "map_of (Participants quiz') userID = Some user'"
    by (simp add: quiz'_def update_conv')
  have h: "HasAnswered user' questionID"
    by (simp add: user'_def HasAnswered_iff AddAnswer_def new_answer_def Let_def)
  show ?thesis
    using SubmitAnswer_reject(3) [OF g u h] .
qed

lemma SubmitAnswer_check_then_commit:
  "(SubmitAnswer_check env qs quizID userID questionID answer = (Inl err, qs1) \<longrightarrow>
      SubmitAnswer env qs quizID userID questionID answer = (Some err, qs1)) \<and>
   (SubmitAnswer_check env qs quizID userID questionID answer = (Inr answerRecord, qs1) \<longrightarrow>
      SubmitAnswer_commit env qs1 quizID userID answerRecord =
        Some (SubmitAnswer env qs quizID userID questionID answer))"
proof (cases "GetQuiz env qs quizID")
  case (Pair r qs')
  show ?thesis
  proof (cases r)
    case (Inl e)
    then show ?thesis
      using Pair by (simp add: SubmitAnswer_check_def SubmitAnswer_def)
  next
    case (Inr quiz)
    then have g: "GetQuiz env qs quizID = (Inr quiz, qs')"
      using Pair by simp
    have m: "Quizzes qs' quizID = Some quiz"
      using GetQuiz_found(2) [OF g] by simp
    show ?thesis
      using g m
      by (auto simp add: SubmitAnswer_check_def SubmitAnswer_def SubmitAnswer_commit_def Let_def
          split: option.splits)
  qed
qed

lemma answers_unique_serve_all:
  assumes "all_users answers_unique qs"
  shows "all_users answers_unique (serve_all qs reqs)"
proof -
  have "answers_unique (new_user e n)" for e n
    by (simp add: answers_unique_def new_user_def)
  moreover have "answers_unique (AddAnswer u (new_answer e q i a))"
    if "answers_unique u" "\<not> HasAnswered u i" for u e q i a
    using that answers_unique_AddAnswer [of u "new_answer e q i a"] by (simp add: new_answer_def)
  ultimately show ?thesis
    using all_users_serve_all [of answers_unique qs reqs] assms by blast
qed

lemma service0_stored: "stored_quizzes service0 = {geo}"
  by (simp add: stored_quizzes_def service0_def redis_quizzes_def)

lemma service0_scores: "all_users score_consistent service0"
  by (simp add: all_users_def service0_stored geo_def alice_def bob_def score_consistent_def
      correct_points_sum_def)

lemma service0_GetQuiz: "GetQuiz env service0 ''geo00001'' = (Inr geo, service0)"
  by (simp add: service0_def)

subsection \<open>The order of a range over a map\<close>

lemma mset_range_order: "mset (range_order cs xs) = mset xs"
proof (induction cs xs rule: range_order.induct)
  case (1 cs)
  then show ?case by simp
next
  case (2 v va)
  then show ?case by simp
next
  case (3 c cs v va)
  let ?xs = "v # va"
  let ?i = "c mod length ?xs"
  have i: "?i < length ?xs" by simp
  have "mset ?xs = mset (take ?i ?xs @ ?xs ! ?i # drop (Suc ?i) ?xs)"
    using id_take_nth_drop [OF i] by simp
  then have "mset ?xs = add_mset (?xs ! ?i) (mset (take ?i ?xs @ drop (Suc ?i) ?xs))"
    by simp
  then show ?case
    using 3 by (simp add: Let_def)
qed

lemma set_range_order [simp]: "set (range_order cs xs) = set xs"
  using mset_range_order [of cs xs] by (metis set_mset_mset)

lemma length_range_order [simp]: "length (range_order cs xs) = length xs"
  using mset_range_order [of cs xs] by (metis size_mset)

lemma distinct_map_range_order:
  "distinct (map f (range_order cs xs)) \<longleftrightarrow> distinct (map f xs)"
proof -
  have "mset (map f (range_order cs xs)) = mset (map f xs)"
    by (simp add: mset_range_order)
  then show ?thesis by (rule mset_eq_imp_distinct_iff)
qed

lemma range_order_complete: "mset ys = mset xs \<Longrightarrow> \<exists>cs. range_order cs xs = ys"
proof (induction ys arbitrary: xs)
  case Nil
  then have "xs = []" by simp
  then show ?case by simp
next
  case (Cons y ys)
  then have "y \<in> set xs"
    by (metis list.set_intros(1) set_mset_mset)
  then obtain i where i: "i < length xs" "xs ! i = y"
    by (auto simp: in_set_conv_nth)
  have xs: "xs = take i xs @ y # drop (Suc i) xs"
    using id_take_nth_drop [OF i(1)] i(2) by simp
  have "mset xs = add_mset y (mset (take i xs @ drop (Suc i) xs))"
    by (subst xs) simp
  then have "mset ys = mset (take i xs @ drop (Suc i) xs)"
    using Cons.prems by simp
  then obtain cs where cs: "range_order cs (take i xs @ drop (Suc i) xs) = ys"
    using Cons.IH by blast
  obtain x xs' where nonempty: "xs = x # xs'"
    using i(1) by (cases xs) auto
  have "range_order (i # cs) xs = y # ys"
    using i cs unfolding nonempty by (simp add: Let_def)
  then show ?case by blast
qed

subsection \<open>The two loops of a broadcast\<close>

lemma select_send_open:
  "open_client c \<Longrightarrow>
     select_send (Send c) data =
       (if has_space c then Sent ((the (Send c))\<lparr>buf := buf (the (Send c)) @ [data]\<rparr>) else NotReady)"
  by (auto simp: open_client_def has_space_def select_send_def split: option.splits)

lemma fan_out_result:
  assumes "distinct ps" and "\<forall>p \<in> set ps. \<exists>c. h p = Some c \<and> open_client c"
  shows "fan_out quizID data ps h rm =
     (None,
      (\<lambda>p. if p \<in> set ps then map_option (after_fan_out quizID data) (h p) else h p),
      rm @ filter (dead quizID h) ps)"
  using assms
proof (induction ps arbitrary: h rm)
  case Nil
  then show ?case by simp
next
  case (Cons p ps)
  from Cons.prems obtain c where c: "h p = Some c" "open_client c"
    by auto
  have notin: "p \<notin> set ps" and dist: "distinct ps"
    using Cons.prems(1) by simp_all
  obtain ch where ch: "Send c = Some ch"
    using c(2) by (auto simp: open_client_def split: option.splits)
  show ?case
  proof (cases "Client_QuizID c = quizID")
    case False
    have pre: "\<forall>q \<in> set ps. \<exists>c. h q = Some c \<and> open_client c"
      using Cons.prems(2) by simp
    have "fan_out quizID data (p # ps) h rm = fan_out quizID data ps h rm"
      using c False by simp
    also have "\<dots> = (None,
      (\<lambda>q. if q \<in> set ps then map_option (after_fan_out quizID data) (h q) else h q),
      rm @ filter (dead quizID h) ps)"
      using Cons.IH [OF dist pre] .
    also have "(\<lambda>q. if q \<in> set ps then map_option (after_fan_out quizID data) (h q) else h q) =
      (\<lambda>q. if q \<in> set (p # ps) then map_option (after_fan_out quizID data) (h q) else h q)"
      using c False by (auto simp: fun_eq_iff after_fan_out_def)
    also have "filter (dead quizID h) ps = filter (dead quizID h) (p # ps)"
      using c False by (simp add: dead_def)
    finally show ?thesis .
  next
    case True
    show ?thesis
    proof (cases "has_space c")
      case space: True
      define c' where "c' = c\<lparr>Send := Some (ch\<lparr>buf := buf ch @ [data]\<rparr>)\<rparr>"
      define h' where "h' = h(p \<mapsto> c')"
      have c': "c' = after_fan_out quizID data c"
        using True space ch by (simp add: c'_def after_fan_out_def enqueue_def)
      have same: "h' q = h q" if "q \<in> set ps" for q
        using that notin by (auto simp: h'_def)
      have pre: "\<forall>q \<in> set ps. \<exists>c. h' q = Some c \<and> open_client c"
        using Cons.prems(2) same by simp
      have "fan_out quizID data (p # ps) h rm = fan_out quizID data ps h' rm"
        using c True space ch select_send_open [OF c(2), of data]
        by (simp add: h'_def c'_def)
      also have "\<dots> = (None,
        (\<lambda>q. if q \<in> set ps then map_option (after_fan_out quizID data) (h' q) else h' q),
        rm @ filter (dead quizID h') ps)"
        using Cons.IH [OF dist pre] .
      also have "(\<lambda>q. if q \<in> set ps then map_option (after_fan_out quizID data) (h' q) else h' q) =
        (\<lambda>q. if q \<in> set (p # ps) then map_option (after_fan_out quizID data) (h q) else h q)"
        using same c c' notin by (auto simp: fun_eq_iff h'_def)
      also have "filter (dead quizID h') ps = filter (dead quizID h) ps"
        using same by (intro filter_cong) (simp_all add: dead_def)
      also have "filter (dead quizID h) ps = filter (dead quizID h) (p # ps)"
        using c space by (simp add: dead_def)
      finally show ?thesis .
    next
      case full: False
      have pre: "\<forall>q \<in> set ps. \<exists>c. h q = Some c \<and> open_client c"
        using Cons.prems(2) by simp
      have "fan_out quizID data (p # ps) h rm = fan_out quizID data ps h (rm @ [p])"
        using c True full select_send_open [OF c(2), of data] by simp
      also have "\<dots> = (None,
        (\<lambda>q. if q \<in> set ps then map_option (after_fan_out quizID data) (h q) else h q),
        (rm @ [p]) @ filter (dead quizID h) ps)"
        using Cons.IH [OF dist pre] .
      also have "(\<lambda>q. if q \<in> set ps then map_option (after_fan_out quizID data) (h q) else h q) =
        (\<lambda>q. if q \<in> set (p # ps) then map_option (after_fan_out quizID data) (h q) else h q)"
        using c full by (auto simp: fun_eq_iff after_fan_out_def)
      also have "(rm @ [p]) @ filter (dead quizID h) ps = rm @ filter (dead quizID h) (p # ps)"
        using c True full by (simp add: dead_def)
      finally show ?thesis .
    qed
  qed
qed

lemma close_Send_open:
  "h p = Some c \<Longrightarrow> open_client c \<Longrightarrow> close_Send h p = Inr (h(p \<mapsto> close_client c))"
  by (auto simp: close_Send_def open_client_def close_client_def split: option.splits)

lemma remove_dead_result:
  assumes "distinct rm"
    and "\<forall>p \<in> set rm. map_of cl p \<noteq> None \<and> (\<exists>c. h p = Some c \<and> open_client c)"
  shows "remove_dead rm cl h =
     (None,
      filter (\<lambda>(k, b). k \<notin> set rm) cl,
      (\<lambda>p. if p \<in> set rm then map_option close_client (h p) else h p))"
  using assms
proof (induction rm arbitrary: cl h)
  case Nil
  then show ?case by simp
next
  case (Cons p rm)
  from Cons.prems obtain c where c: "map_of cl p \<noteq> None" "h p = Some c" "open_client c"
    by auto
  have notin: "p \<notin> set rm" and dist: "distinct rm"
    using Cons.prems(1) by simp_all
  define cl' where "cl' = AList.delete p cl"
  define h' where "h' = h(p \<mapsto> close_client c)"
  have pre: "\<forall>q \<in> set rm. map_of cl' q \<noteq> None \<and> (\<exists>c. h' q = Some c \<and> open_client c)"
  proof
    fix q
    assume q: "q \<in> set rm"
    then have "q \<noteq> p" using notin by auto
    then show "map_of cl' q \<noteq> None \<and> (\<exists>c. h' q = Some c \<and> open_client c)"
      using Cons.prems(2) q by (simp add: cl'_def h'_def delete_conv')
  qed
  have "remove_dead (p # rm) cl h = remove_dead rm cl' h'"
    using c close_Send_open [of h p c] by (simp add: cl'_def h'_def)
  also have "\<dots> = (None,
      filter (\<lambda>(k, b). k \<notin> set rm) cl',
      (\<lambda>q. if q \<in> set rm then map_option close_client (h' q) else h' q))"
    using Cons.IH [OF dist pre] .
  also have "filter (\<lambda>(k, b). k \<notin> set rm) cl' = filter (\<lambda>(k, b). k \<notin> set (p # rm)) cl"
    by (auto simp: cl'_def AList.delete_eq intro: filter_cong)
  also have "(\<lambda>q. if q \<in> set rm then map_option close_client (h' q) else h' q) =
      (\<lambda>q. if q \<in> set (p # rm) then map_option close_client (h q) else h q)"
    using c(2) notin by (auto simp: fun_eq_iff h'_def)
  finally show ?case .
qed

lemma broadcastToQuiz_result:
  assumes "hub_ok qs"
  shows "broadcastToQuiz pub_ok cs qs quizID message =
     (None,
      qs\<lparr>Clients := filter (\<lambda>(p, b). \<not> dead quizID (objects qs) p) (Clients qs),
         objects := (\<lambda>p. if registered qs p
                          then map_option (after_broadcast quizID message) (objects qs p)
                          else objects qs p),
         Redis := snd (PublishMessage (Redis qs) pub_ok (''quiz:'' @ quizID) message)\<rparr>)"
proof -
  define ps where "ps = map fst (range_order cs (Clients qs))"
  define h where "h = objects qs"
  define h1 where "h1 = (\<lambda>p. if p \<in> set ps then map_option (after_fan_out quizID message) (h p) else h p)"
  define rm where "rm = filter (dead quizID h) ps"
  have dist: "distinct ps"
    using assms by (simp add: ps_def hub_ok_def distinct_map_range_order)
  have set_ps: "set ps = fst ` set (Clients qs)"
    by (simp add: ps_def)
  have reg: "registered qs p \<longleftrightarrow> p \<in> set ps" for p
    by (simp add: registered_def set_ps map_of_eq_None_iff)
  have open_all: "\<forall>p \<in> set ps. \<exists>c. h p = Some c \<and> open_client c"
    using assms by (fastforce simp: hub_ok_def set_ps h_def split: option.splits)
  have fo: "fan_out quizID message ps h [] = (None, h1, rm)"
    using fan_out_result [OF dist open_all, of quizID message "[]"] by (simp add: h1_def rm_def)
  have drm: "distinct rm"
    using dist by (simp add: rm_def)
  have pre: "\<forall>p \<in> set rm. map_of (Clients qs) p \<noteq> None \<and> (\<exists>c. h1 p = Some c \<and> open_client c)"
  proof
    fix p
    assume "p \<in> set rm"
    then have p: "p \<in> set ps" "dead quizID h p"
      by (simp_all add: rm_def)
    then obtain c where c: "h p = Some c" "open_client c"
      using open_all by blast
    then have "after_fan_out quizID message c = c"
      using p(2) by (simp add: dead_def after_fan_out_def)
    then have "h1 p = Some c"
      using p(1) c(1) by (simp add: h1_def)
    then show "map_of (Clients qs) p \<noteq> None \<and> (\<exists>c. h1 p = Some c \<and> open_client c)"
      using c(2) p(1) reg by (simp add: registered_def)
  qed
  define cl2 where "cl2 = filter (\<lambda>(k, b). k \<notin> set rm) (Clients qs)"
  define h2 where "h2 = (\<lambda>p. if p \<in> set rm then map_option close_client (h1 p) else h1 p)"
  have rd: "remove_dead rm (Clients qs) h1 = (None, cl2, h2)"
    using remove_dead_result [OF drm pre] by (simp add: cl2_def h2_def)
  have rd': "(if length rm > 0 then remove_dead rm (Clients qs) h1 else (None, Clients qs, h1)) =
      (None, cl2, h2)"
  proof (cases "rm = []")
    case True
    then show ?thesis by (simp add: cl2_def h2_def)
  next
    case False
    then show ?thesis using rd by simp
  qed
  have cl2: "cl2 = filter (\<lambda>(p, b). \<not> dead quizID (objects qs) p) (Clients qs)"
    unfolding cl2_def
  proof (rule filter_cong [OF refl])
    fix x
    assume "x \<in> set (Clients qs)"
    then have "fst x \<in> set ps" by (simp add: set_ps)
    then show "(case x of (k, b) \<Rightarrow> k \<notin> set rm) = (case x of (p, b) \<Rightarrow> \<not> dead quizID (objects qs) p)"
      by (cases x) (simp add: rm_def h_def)
  qed
  have h2: "h2 = (\<lambda>p. if registered qs p
                          then map_option (after_broadcast quizID message) (objects qs p)
                          else objects qs p)"
  proof
    fix p
    show "h2 p = (if registered qs p
                          then map_option (after_broadcast quizID message) (objects qs p)
                          else objects qs p)"
    proof (cases "p \<in> set ps")
      case False
      then show ?thesis by (simp add: h2_def h1_def rm_def reg h_def)
    next
      case True
      then obtain c where c: "h p = Some c"
        using open_all by blast
      show ?thesis
        using True c by (auto simp: h2_def h1_def rm_def reg h_def [symmetric] dead_def
            after_fan_out_def after_broadcast_def)
    qed
  qed
  show ?thesis
    using fo rd' by (simp add: broadcastToQuiz_def ps_def [symmetric] h_def [symmetric] cl2 h2)
qed

lemma hub_ok_after_broadcast:
  assumes "hub_ok qs"
  shows "hub_ok (snd (broadcastToQuiz pub_ok cs qs quizID message))"
proof -
  let ?cl = "filter (\<lambda>(p, b). \<not> dead quizID (objects qs) p) (Clients qs)"
  have d: "distinct (map fst ?cl)"
    using assms by (simp add: hub_ok_def distinct_map_filter)
  have "case (if registered qs p
              then map_option (after_broadcast quizID message) (objects qs p)
              else objects qs p) of None \<Rightarrow> False | Some c \<Rightarrow> open_client c"
    if "(p, b) \<in> set ?cl" for p b
  proof -
    have in_cl: "(p, b) \<in> set (Clients qs)" and alive: "\<not> dead quizID (objects qs) p"
      using that by simp_all
    then obtain c where c: "objects qs p = Some c" "open_client c"
      using assms by (fastforce simp: hub_ok_def split: option.splits)
    have "registered qs p"
      using in_cl by (force simp: registered_def map_of_eq_None_iff)
    moreover have "open_client (after_broadcast quizID message c)"
      using c alive
      by (auto simp: after_broadcast_def dead_def open_client_def enqueue_def split: option.splits)
    ultimately show ?thesis
      using c(1) by simp
  qed
  note key = this
  have "hub_ok (qs\<lparr>Clients := ?cl,
                   objects := (\<lambda>p. if registered qs p
                                    then map_option (after_broadcast quizID message) (objects qs p)
                                    else objects qs p),
                   Redis := r\<rparr>)" for r
    unfolding hub_ok_def
  proof (intro conjI ballI)
    show "distinct (map fst (Clients (qs\<lparr>Clients := ?cl,
                   objects := (\<lambda>p. if registered qs p
                                    then map_option (after_broadcast quizID message) (objects qs p)
                                    else objects qs p),
                   Redis := r\<rparr>)))"
      using d by simp
  next
    fix x
    assume "x \<in> set (Clients (qs\<lparr>Clients := ?cl,
                   objects := (\<lambda>p. if registered qs p
                                    then map_option (after_broadcast quizID message) (objects qs p)
                                    else objects qs p),
                   Redis := r\<rparr>))"
    moreover obtain p b where "x = (p, b)"
      by (cases x)
    ultimately have x: "x = (p, b)" "(p, b) \<in> set ?cl"
      by simp_all
    show "case x of (p, b) \<Rightarrow>
            (case objects (qs\<lparr>Clients := ?cl,
                   objects := (\<lambda>p. if registered qs p
                                    then map_option (after_broadcast quizID message) (objects qs p)
                                    else objects qs p),
                   Redis := r\<rparr>) p of None \<Rightarrow> False | Some c \<Rightarrow> open_client c)"
      using key [OF x(2)] x(1) by simp
  qed
  then show ?thesis
    by (simp add: broadcastToQuiz_result [OF assms])
qed

lemma registered_after_broadcast:
  assumes "hub_ok qs"
  shows "registered (snd (broadcastToQuiz pub_ok cs qs quizID message)) p \<longleftrightarrow>
         registered qs p \<and> \<not> dead quizID (objects qs) p"
proof -
  have "p \<in> fst ` set (filter (\<lambda>(p, b). \<not> dead quizID (objects qs) p) (Clients qs)) \<longleftrightarrow>
        p \<in> fst ` set (Clients qs) \<and> \<not> dead quizID (objects qs) p"
    by force
  then show ?thesis
    by (simp add: broadcastToQuiz_result [OF assms] registered_def map_of_eq_None_iff)
qed

lemma objects_after_broadcast:
  assumes "hub_ok qs"
  shows "objects (snd (broadcastToQuiz pub_ok cs qs quizID message)) p =
         (if registered qs p then map_option (after_broadcast quizID message) (objects qs p)
          else objects qs p)"
  by (simp add: broadcastToQuiz_result [OF assms])

lemma hub_ok_RegisterClient:
  assumes "hub_ok qs" and "objects qs p = Some c" and "open_client c"
  shows "RegisterClient qs p = (None, qs\<lparr>Clients := AList.update p True (Clients qs)\<rparr>)"
    and "hub_ok (snd (RegisterClient qs p))"
proof -
  show eq: "RegisterClient qs p = (None, qs\<lparr>Clients := AList.update p True (Clients qs)\<rparr>)"
    using assms(2) by (simp add: RegisterClient_def Let_def)
  have "set (AList.update p True (Clients qs)) \<subseteq> insert (p, True) (set (Clients qs))"
    by (rule set_update_subset)
  then show "hub_ok (snd (RegisterClient qs p))"
    using assms by (auto simp: eq hub_ok_def distinct_update split: option.splits)
qed

lemma hub_ok_UnregisterClient:
  assumes "hub_ok qs"
  shows "fst (UnregisterClient qs p) = None" and "hub_ok (snd (UnregisterClient qs p))"
    and "\<not> registered (snd (UnregisterClient qs p)) p"
proof -
  have "fst (UnregisterClient qs p) = None \<and> hub_ok (snd (UnregisterClient qs p)) \<and>
        \<not> registered (snd (UnregisterClient qs p)) p"
  proof (cases "map_of (Clients qs) p")
    case None
    then show ?thesis using assms by (simp add: UnregisterClient_def registered_def)
  next
    case (Some b)
    then have "(p, b) \<in> set (Clients qs)" by (rule map_of_SomeD)
    then obtain c where c: "objects qs p = Some c" "open_client c"
      using assms by (fastforce simp: hub_ok_def split: option.splits)
    have eq: "UnregisterClient qs p =
        (None, qs\<lparr>Clients := AList.delete p (Clients qs), objects := (objects qs)(p \<mapsto> close_client c)\<rparr>)"
      using Some close_Send_open [of "objects qs" p c] c by (simp add: UnregisterClient_def Let_def)
    have "hub_ok (qs\<lparr>Clients := AList.delete p (Clients qs), objects := (objects qs)(p \<mapsto> close_client c)\<rparr>)"
      unfolding hub_ok_def
    proof (intro conjI ballI)
      show "distinct (map fst (Clients (qs\<lparr>Clients := AList.delete p (Clients qs),
                objects := (objects qs)(p \<mapsto> close_client c)\<rparr>)))"
        using assms by (simp add: hub_ok_def distinct_delete)
    next
      fix x
      assume "x \<in> set (Clients (qs\<lparr>Clients := AList.delete p (Clients qs),
                objects := (objects qs)(p \<mapsto> close_client c)\<rparr>))"
      moreover obtain q d where "x = (q, d)"
        by (cases x)
      ultimately have x: "x = (q, d)" "(q, d) \<in> set (Clients qs)" "q \<noteq> p"
        by (auto simp: AList.delete_eq)
      then have "case objects qs q of None \<Rightarrow> False | Some c \<Rightarrow> open_client c"
        using assms by (auto simp: hub_ok_def)
      then show "case x of (r, b) \<Rightarrow>
            (case objects (qs\<lparr>Clients := AList.delete p (Clients qs),
                objects := (objects qs)(p \<mapsto> close_client c)\<rparr>) r of
              None \<Rightarrow> False | Some c \<Rightarrow> open_client c)"
        using x by simp
    qed
    then show ?thesis
      by (simp add: eq registered_def delete_conv')
  qed
  then show "fst (UnregisterClient qs p) = None" and "hub_ok (snd (UnregisterClient qs p))"
    and "\<not> registered (snd (UnregisterClient qs p)) p"
    by simp_all
qed

lemma hub0_ok: "hub_ok hub0"
  by (simp add: hub_ok_def hub0_def client1_def client2_def client3_def open_client_def)

subsection \<open>How the calls end\<close>

lemma fan_out_error:
  "fst (fan_out quizID data ps h rm) = Some e \<Longrightarrow> \<exists>m. e = Panic m"
proof (induction ps arbitrary: h rm)
  case Nil
  then show ?case by simp
next
  case (Cons p ps)
  then show ?case
    by (auto split: option.splits if_splits send_result.splits)
qed

lemma remove_dead_error:
  "fst (remove_dead rm cl h) = Some e \<Longrightarrow> \<exists>m. e = Panic m"
proof (induction rm arbitrary: cl h)
  case Nil
  then show ?case by simp
next
  case (Cons p rm)
  have "\<exists>m. e' = Panic m" if "close_Send h p = Inl e'" for e'
    using that by (auto simp: close_Send_def split: option.splits if_splits)
  then show ?case
    using Cons by (auto split: if_splits sum.splits)
qed

lemma broadcastToQuiz_error:
  assumes "fst (broadcastToQuiz pub_ok cs qs quizID message) = Some e"
  shows "\<exists>m. e = Panic m"
proof -
  obtain r1 h rm where f: "fan_out quizID message (map fst (range_order cs (Clients qs))) (objects qs) [] = (r1, h, rm)"
    by (cases "fan_out quizID message (map fst (range_order cs (Clients qs))) (objects qs) []")
  show ?thesis
  proof (cases r1)
    case (Some e1)
    then have "e = e1"
      using assms f by (simp add: broadcastToQuiz_def)
    then show ?thesis
      using fan_out_error [of quizID message "map fst (range_order cs (Clients qs))" "objects qs" "[]" e1]
        f Some by simp
  next
    case None
    obtain r2 cl h' where d: "(if length rm > 0 then remove_dead rm (Clients qs) h
                 else (None, Clients qs, h)) = (r2, cl, h')"
      by (cases "if length rm > 0 then remove_dead rm (Clients qs) h else (None, Clients qs, h)")
    then have r2: "r2 = Some e"
      using assms f None by (cases r2) (simp_all add: broadcastToQuiz_def)
    then have "fst (remove_dead rm (Clients qs) h) = Some e"
      using d by (auto split: if_splits)
    then show ?thesis by (rule remove_dead_error)
  qed
qed

lemma broadcastLeaderboard_eq:
  assumes "Quizzes qs quizID = Some quiz"
  shows "broadcastLeaderboard env n qs quizID =
      broadcastToQuiz (publish_ok env n) (range_clients env n)
        (qs\<lparr>Redis := snd (SaveLeaderboard (Redis qs) (set_leaderboard_ok env) quizID
                           (Quiz_GetLeaderboard (range_participants env) quiz))\<rparr>)
        quizID
        \<lparr>Type = ''leaderboard_update'',
         Payload = LeaderboardPayload (Quiz_GetLeaderboard (range_participants env) quiz)\<rparr>"
  using assms by (simp add: broadcastLeaderboard_def GetLeaderboard_def Let_def)

lemma broadcastLeaderboard_outcome:
  assumes "Quizzes qs quizID = Some quiz"
  shows "fst (broadcastLeaderboard env n qs quizID) = Some e \<Longrightarrow> \<exists>m. e = Panic m"
    and "hub_ok qs \<Longrightarrow> fst (broadcastLeaderboard env n qs quizID) = None"
    and "hub_ok qs \<Longrightarrow> hub_ok (snd (broadcastLeaderboard env n qs quizID))"
proof -
  define qs1 where "qs1 = qs\<lparr>Redis := snd (SaveLeaderboard (Redis qs) (set_leaderboard_ok env) quizID
                           (Quiz_GetLeaderboard (range_participants env) quiz))\<rparr>"
  define m where "m = \<lparr>Type = ''leaderboard_update'',
         Payload = LeaderboardPayload (Quiz_GetLeaderboard (range_participants env) quiz)\<rparr>"
  have eq: "broadcastLeaderboard env n qs quizID =
      broadcastToQuiz (publish_ok env n) (range_clients env n) qs1 quizID m"
    unfolding qs1_def m_def using assms by (rule broadcastLeaderboard_eq)
  have h: "hub_ok qs1 = hub_ok qs"
    by (simp add: qs1_def hub_ok_def)
  show "fst (broadcastLeaderboard env n qs quizID) = Some e \<Longrightarrow> \<exists>m. e = Panic m"
    unfolding eq by (rule broadcastToQuiz_error)
  assume "hub_ok qs"
  then have ok: "hub_ok qs1"
    using h by simp
  show "fst (broadcastLeaderboard env n qs quizID) = None"
    unfolding eq broadcastToQuiz_result [OF ok] by simp
  show "hub_ok (snd (broadcastLeaderboard env n qs quizID))"
    unfolding eq using ok by (rule hub_ok_after_broadcast)
qed

lemma case_broadcast:
  "(case B of (Some e, qs4) \<Rightarrow> (Some e, qs4) | (None, qs4) \<Rightarrow> f qs4) =
   (case fst B of Some e \<Rightarrow> (Some e, snd B) | None \<Rightarrow> f (snd B))"
  by (cases B) (simp split: option.splits)

lemma SubmitAnswer_accept_outcome:
  assumes "GetQuiz env qs quizID = (Inr quiz, qs1)"
    and "map_of (Participants quiz) userID = Some user"
    and "\<not> HasAnswered user questionID"
    and "find_question (Questions quiz) questionID = Some question"
  shows "fst (SubmitAnswer env qs quizID userID questionID answer) = Some e \<Longrightarrow> \<exists>m. e = Panic m"
    and "hub_ok qs \<Longrightarrow> fst (SubmitAnswer env qs quizID userID questionID answer) = None"
    and "hub_ok qs \<Longrightarrow> hub_ok (snd (SubmitAnswer env qs quizID userID questionID answer))"
proof -
  define user' where "user' = AddAnswer user (new_answer env question questionID answer)"
  define quiz' where "quiz' = quiz\<lparr>Participants := AList.update userID user' (Participants quiz)\<rparr>"
  define qs3 where
    "qs3 = save_quiz_and_user env (qs1\<lparr>Quizzes := (Quizzes qs1)(quizID \<mapsto> quiz')\<rparr>) quiz' user'"
  define m where "m = \<lparr>Type = ''score_update'',
                  Payload = UserScorePayload userID (User_Name user') (GetScore user')\<rparr>"
  define B where "B = broadcastToQuiz (publish_ok env 0) (range_clients env 0) qs3 quizID m"
  have "SubmitAnswer env qs quizID userID questionID answer =
     (case B of (Some e, qs4) \<Rightarrow> (Some e, qs4)
              | (None, qs4) \<Rightarrow> broadcastLeaderboard env 1 qs4 quizID)"
    unfolding B_def m_def qs3_def quiz'_def user'_def
    using SubmitAnswer_accept_eq [OF assms, of answer] by (simp only: Let_def)
  then have eq: "SubmitAnswer env qs quizID userID questionID answer =
     (case fst B of Some e \<Rightarrow> (Some e, snd B) | None \<Rightarrow> broadcastLeaderboard env 1 (snd B) quizID)"
    by (simp only: case_broadcast)
  have q3: "Quizzes qs3 quizID = Some quiz'"
    by (simp add: qs3_def)
  have q4: "Quizzes (snd B) quizID = Some quiz'"
    unfolding B_def using q3 by simp
  have h3: "hub_ok qs3 = hub_ok qs"
    using GetQuiz_found(4,5) [OF assms(1)]
    by (simp add: qs3_def save_quiz_and_user_def Let_def hub_ok_def)
  show "fst (SubmitAnswer env qs quizID userID questionID answer) = Some e \<Longrightarrow> \<exists>m. e = Panic m"
  proof (cases "fst B")
    case None
    assume "fst (SubmitAnswer env qs quizID userID questionID answer) = Some e"
    then have "fst (broadcastLeaderboard env 1 (snd B) quizID) = Some e"
      by (simp add: eq None)
    then show ?thesis
      by (rule broadcastLeaderboard_outcome(1) [OF q4])
  next
    case (Some e1)
    assume "fst (SubmitAnswer env qs quizID userID questionID answer) = Some e"
    then have "fst B = Some e"
      by (simp add: eq Some)
    then show ?thesis
      unfolding B_def by (rule broadcastToQuiz_error)
  qed
  assume "hub_ok qs"
  then have ok3: "hub_ok qs3"
    using h3 by simp
  have r4: "fst B = None"
    unfolding B_def broadcastToQuiz_result [OF ok3] by simp
  have h4: "hub_ok (snd B)"
    unfolding B_def using ok3 by (rule hub_ok_after_broadcast)
  show "fst (SubmitAnswer env qs quizID userID questionID answer) = None"
    using broadcastLeaderboard_outcome(2) [OF q4 h4, of env 1] by (simp add: eq r4)
  show "hub_ok (snd (SubmitAnswer env qs quizID userID questionID answer))"
    using broadcastLeaderboard_outcome(3) [OF q4 h4, of env 1] by (simp add: eq r4)
qed

lemma AddAnswer_new_answer:
  "AddAnswer user (new_answer env question questionID answer) =
     user\<lparr>Answers := Answers user @
              [\<lparr>QuestionID = questionID, Answer_Answer = answer,
                Answer_Correct = (answer = Question_Correct question),
                Answer_Points = (if answer = Question_Correct question then Question_Points question else 0),
                AnsweredAt = now env\<rparr>],
          User_Score := User_Score user +
              (if answer = Question_Correct question then Question_Points question else 0)\<rparr>"
  by (simp add: AddAnswer_def new_answer_def Let_def)

lemma service0_hub_ok: "hub_ok service0"
  by (simp add: hub_ok_def service0_def)

lemma SubmitAnswer_rejected:
  assumes "fst (SubmitAnswer env qs quizID userID questionID answer) = Some e"
    and "kind_of e \<noteq> RuntimePanic"
  shows "e \<in> {QuizNotFound quizID, UserNotFound userID, AlreadyAnswered, QuestionNotFound questionID}"
    and "snd (SubmitAnswer env qs quizID userID questionID answer) = snd (GetQuiz env qs quizID)"
proof -
  have "e \<in> {QuizNotFound quizID, UserNotFound userID, AlreadyAnswered, QuestionNotFound questionID} \<and>
        snd (SubmitAnswer env qs quizID userID questionID answer) = snd (GetQuiz env qs quizID)"
  proof (cases rule: SubmitAnswer_cases [of env qs quizID userID questionID answer])
    case no_quiz
    have "snd (GetQuiz env qs quizID) = qs"
      using GetQuiz_Inl(2) [of env qs quizID "QuizNotFound quizID" "snd (GetQuiz env qs quizID)"]
        no_quiz(2) by (simp add: prod_eq_iff)
    then show ?thesis using no_quiz(1) assms(1) by simp
  next
    case (no_user quiz)
    then show ?thesis using assms(1) by simp
  next
    case (duplicate quiz user)
    then show ?thesis using assms(1) by simp
  next
    case (no_question quiz user)
    then show ?thesis using assms(1) by simp
  next
    case (accept quiz user question)
    then obtain m where "e = Panic m"
      using SubmitAnswer_accept_outcome(1) [OF accept assms(1)] by blast
    then show ?thesis using assms(2) by simp
  qed
  then show "e \<in> {QuizNotFound quizID, UserNotFound userID, AlreadyAnswered, QuestionNotFound questionID}"
    and "snd (SubmitAnswer env qs quizID userID questionID answer) = snd (GetQuiz env qs quizID)"
    by simp_all
qed

lemma GetQuiz_frame:
  "Redis (snd (GetQuiz env qs quizID)) = Redis qs \<and>
   Clients (snd (GetQuiz env qs quizID)) = Clients qs \<and>
   objects (snd (GetQuiz env qs quizID)) = objects qs \<and>
   (\<forall>k q. Quizzes qs k = Some q \<longrightarrow> Quizzes (snd (GetQuiz env qs quizID)) k = Some q) \<and>
   (Quizzes (snd (GetQuiz env qs quizID)) = Quizzes qs \<or>
    (\<exists>quiz. Quizzes qs quizID = None \<and> redis_quizzes (Redis qs) quizID = Some quiz \<and>
       Quizzes (snd (GetQuiz env qs quizID)) = (Quizzes qs)(quizID \<mapsto> quiz)))"
proof -
  obtain r qs1 where g: "GetQuiz env qs quizID = (r, qs1)"
    by (cases "GetQuiz env qs quizID")
  show ?thesis
    using GetQuiz_cases [OF g] g by auto
qed

subsection \<open>The status of a quiz\<close>

lemma status_rank_le_2: "status_rank s \<le> 2"
  by (cases s) simp_all

lemma quiz_change_status:
  "quiz_change q q' \<Longrightarrow> status_rank (Status q) \<le> status_rank (Status q')"
  by (induction rule: quiz_change.induct) (simp_all add: AddParticipant_def status_rank_le_2)

lemma serve_status:
  assumes "Quizzes qs k = Some q"
    and "case req of CreateQuizReq title \<Rightarrow> Quizzes qs (uuid env) = None | _ \<Rightarrow> True"
  shows "\<exists>q'. Quizzes (serve env qs req) k = Some q' \<and>
              status_rank (Status q) \<le> status_rank (Status q')"
proof -
  have st: "mem_step (created env req) qs (serve env qs req)"
    using serve_steps [of env req qs] by simp
  then obtain q' where q': "Quizzes (serve env qs req) k = Some q'"
    using assms(1) unfolding mem_step_def by fastforce
  then consider "found qs k q'" | q0 where "found qs k q0" "quiz_change q0 q'"
    | "created env req = Some (k, q')"
    using st unfolding mem_step_def by blast
  then have "status_rank (Status q) \<le> status_rank (Status q')"
  proof cases
    case 1
    then have "q' = q" using assms(1) by (simp add: found_def)
    then show ?thesis by simp
  next
    case 2
    then have "q0 = q" using assms(1) by (simp add: found_def)
    then show ?thesis using 2(2) quiz_change_status by simp
  next
    case 3
    then obtain title where "req = CreateQuizReq title" "k = uuid env"
      by (cases req) simp_all
    then show ?thesis using assms by simp
  qed
  then show ?thesis using q' by simp
qed

lemma serve_all_status:
  "fresh_ids qs reqs \<Longrightarrow> Quizzes qs k = Some q \<Longrightarrow>
     \<exists>q'. Quizzes (serve_all qs reqs) k = Some q' \<and>
          status_rank (Status q) \<le> status_rank (Status q')"
proof (induction reqs arbitrary: qs q)
  case Nil
  then show ?case by simp
next
  case (Cons a reqs)
  obtain env req where a: "a = (env, req)" by (cases a)
  have f: "case req of CreateQuizReq title \<Rightarrow> Quizzes qs (uuid env) = None | _ \<Rightarrow> True"
    and r: "fresh_ids (serve env qs req) reqs"
    using Cons.prems(1) a by simp_all
  obtain q1 where q1: "Quizzes (serve env qs req) k = Some q1"
      "status_rank (Status q) \<le> status_rank (Status q1)"
    using serve_status [OF Cons.prems(2) f] by blast
  obtain q' where "Quizzes (serve_all (serve env qs req) reqs) k = Some q'"
      "status_rank (Status q1) \<le> status_rank (Status q')"
    using Cons.IH [OF r q1(1)] by blast
  then show ?case
    using q1(2) a by auto
qed

lemma lobby_GetQuiz: "GetQuiz env lobby_service ''c0ffee00'' = (Inr (new_quiz env0 ''Geo''), lobby_service)"
  by (simp add: lobby_service_def)

lemma EndQuiz_status:
  assumes "GetQuiz env qs quizID = (Inr quiz, qs1)"
  shows "map_option Status (Quizzes (snd (EndQuiz env qs quizID)) quizID) = Some QuizStatusEnded"
  using EndQuiz_ok(1) [OF assms refl] by simp

lemma StartQuiz_status:
  assumes "GetQuiz env qs quizID = (Inr quiz, qs1)" and "Status quiz = QuizStatusWaiting"
  shows "map_option Status (Quizzes (snd (StartQuiz env qs quizID)) quizID) = Some QuizStatusActive"
  using StartQuiz_ok(1) [OF assms refl] by simp

lemma on_message_publishes:
  assumes "hub_ok qs" and "Bytes msg = Encoded message" and "5 \<le> length (Channel msg)"
  shows "Redis (snd (on_message env qs msg)) =
         snd (PublishMessage (Redis qs) (publish_ok env 0) (''quiz:'' @ drop 5 (Channel msg)) message)"
  using assms by (simp add: on_message_def json_Unmarshal_def broadcastToQuiz_result)

lemma cold_service_hub_ok: "hub_ok cold_service"
  by (simp add: hub_ok_def cold_service_def)

subsection \<open>The sort of the leaderboard\<close>

lemma by_score_iff: "by_score a b \<longleftrightarrow> \<not> Entry_Score a <s Entry_Score b"
  by (simp add: by_score_def word_sle_eq word_sless_alt not_less)

lemma by_score_refl [simp]: "by_score a a"
  by (simp add: by_score_def)

lemma by_score_trans: "by_score a b \<Longrightarrow> by_score b c \<Longrightarrow> by_score a c"
  by (simp add: by_score_def word_sle_eq)

lemma mset_sort_inner: "i < j \<Longrightarrow> mset (sort_inner i j es) = mset es"
proof (induction i j es rule: sort_inner.induct)
  case (1 i j es)
  show ?case
  proof (cases "j < length es")
    case False
    then show ?thesis by (subst sort_inner.simps) simp
  next
    case True
    then have "mset (es[i := es ! j, j := es ! i]) = mset es"
      using 1(2) by (simp add: mset_swap)
    then show ?thesis
      using 1 True by (subst sort_inner.simps) (simp split: if_splits)
  qed
qed

lemma take_sort_inner: "i < j \<Longrightarrow> take i (sort_inner i j es) = take i es"
proof (induction i j es rule: sort_inner.induct)
  case (1 i j es)
  show ?case
  proof (cases "j < length es")
    case False
    then show ?thesis by (subst sort_inner.simps) simp
  next
    case True
    then show ?thesis
      using 1 by (subst sort_inner.simps) (simp split: if_splits)
  qed
qed

lemma sort_inner_front:
  "i < j \<Longrightarrow> \<forall>k. i < k \<and> k < j \<and> k < length es \<longrightarrow> by_score (es ! i) (es ! k) \<Longrightarrow>
     \<forall>k. i < k \<and> k < length es \<longrightarrow> by_score (sort_inner i j es ! i) (sort_inner i j es ! k)"
proof (induction i j es rule: sort_inner.induct)
  case (1 i j es)
  show ?case
  proof (cases "j < length es")
    case False
    then show ?thesis
      using 1(3) by (subst (1 2) sort_inner.simps) simp
  next
    case True
    define es' where "es' = (if Entry_Score (es ! i) <s Entry_Score (es ! j)
              then es[i := es ! j, j := es ! i] else es)"
    have len: "length es' = length es"
      by (simp add: es'_def)
    have inv: "\<forall>k. i < k \<and> k < j + 1 \<and> k < length es' \<longrightarrow> by_score (es' ! i) (es' ! k)"
    proof (intro allI impI)
      fix k
      assume k: "i < k \<and> k < j + 1 \<and> k < length es'"
      show "by_score (es' ! i) (es' ! k)"
      proof (cases "Entry_Score (es ! i) <s Entry_Score (es ! j)")
        case False
        then have e: "es' = es" by (simp add: es'_def)
        show ?thesis
        proof (cases "k = j")
          case True
          then show ?thesis using False e by (simp add: by_score_iff)
        next
          case False
          then show ?thesis using k 1(3) e len by simp
        qed
      next
        case swap: True
        then have e: "es' = es[i := es ! j, j := es ! i]" by (simp add: es'_def)
        have ij: "by_score (es ! j) (es ! i)"
          using swap by (simp add: by_score_def word_sle_eq word_sless_alt)
        have i': "es' ! i = es ! j"
          using 1(2) True e by simp
        show ?thesis
        proof (cases "k = j")
          case True
          then have "es' ! k = es ! i" using e \<open>j < length es\<close> by simp
          then show ?thesis using i' ij by simp
        next
          case False
          then have "es' ! k = es ! k" using e k by simp
          moreover have "by_score (es ! i) (es ! k)"
            using False k 1(3) len by simp
          ultimately show ?thesis
            using i' ij by_score_trans by metis
        qed
      qed
    qed
    have "sort_inner i j es = sort_inner i (j + 1) es'"
      using True by (subst sort_inner.simps) (simp add: es'_def)
    moreover have "\<forall>k. i < k \<and> k < length es' \<longrightarrow>
        by_score (sort_inner i (j + 1) es' ! i) (sort_inner i (j + 1) es' ! k)"
      using "1.IH" [OF True, folded es'_def] 1(2) inv by simp
    ultimately show ?thesis
      using len by simp
  qed
qed

lemma set_drop_sort_inner:
  assumes "i < j"
  shows "mset (drop i (sort_inner i j es)) = mset (drop i es)"
proof -
  have "mset (take i (sort_inner i j es)) + mset (drop i (sort_inner i j es)) =
        mset (take i es) + mset (drop i es)"
    using mset_sort_inner [OF assms, of es]
    by (metis append_take_drop_id mset_append)
  then show ?thesis
    using take_sort_inner [OF assms, of es] by simp
qed

lemma sorted_upto_step:
  assumes "sorted_upto i es" and "i + 1 < length es"
  shows "sorted_upto (i + 1) (sort_inner i (i + 1) es)"
proof -
  define es' where "es' = sort_inner i (i + 1) es"
  have len: "length es' = length es"
    by (simp add: es'_def)
  have tk: "take i es' = take i es"
    by (simp add: es'_def take_sort_inner)
  have dr: "set (drop i es') = set (drop i es)"
    using set_drop_sort_inner [of i "i + 1" es] by (metis es'_def less_add_one set_mset_mset)
  have "\<forall>k. i < k \<and> k < i + 1 \<and> k < length es \<longrightarrow> by_score (es ! i) (es ! k)"
    by auto
  then have front: "\<forall>k. i < k \<and> k < length es' \<longrightarrow> by_score (es' ! i) (es' ! k)"
    using sort_inner_front [of i "i + 1" es] len unfolding es'_def by simp
  have i: "i < length es'"
    using assms(2) len by simp
  have tk1: "take (i + 1) es' = take i es @ [es' ! i]"
    using take_Suc_conv_app_nth [OF i] tk by simp
  have "es' ! i \<in> set (drop i es')"
    using i by (metis Cons_nth_drop_Suc list.set_intros(1))
  then have below: "\<forall>x \<in> set (take i es). by_score x (es' ! i)"
    using assms(1) dr by (simp add: sorted_upto_def)
  have s: "sorted_wrt by_score (take (i + 1) es')"
    unfolding tk1 using assms(1) below by (simp add: sorted_wrt_append sorted_upto_def)
  have sub: "set (drop (i + 1) es') \<subseteq> set (drop i es)"
    using dr set_drop_subset_set_drop [of i "i + 1" es'] by simp
  have c: "by_score x y"
    if x: "x \<in> set (take (i + 1) es')" and y: "y \<in> set (drop (i + 1) es')" for x y
  proof (cases "x = es' ! i")
    case True
    obtain k where k: "k < length (drop (i + 1) es')" "y = drop (i + 1) es' ! k"
      using y by (auto simp: in_set_conv_nth)
    then have "y = es' ! (i + 1 + k)" "i + 1 + k < length es'"
      by (simp_all add: add.commute)
    then show ?thesis
      using front True by simp
  next
    case False
    then have "x \<in> set (take i es)"
      using x tk1 by simp
    then show ?thesis
      using assms(1) y sub by (auto simp: sorted_upto_def)
  qed
  show ?thesis
    unfolding sorted_upto_def es'_def [symmetric] using s c by blast
qed

lemma sort_outer_sorts:
  "sorted_upto i es \<Longrightarrow>
     sorted_wrt by_score (sort_outer i es) \<and> mset (sort_outer i es) = mset es"
proof (induction i es rule: sort_outer.induct)
  case (1 i es)
  show ?case
  proof (cases "int i < int (length es) - 1")
    case True
    then have lt: "i + 1 < length es" by simp
    have "sorted_upto (i + 1) (sort_inner i (i + 1) es)"
      using sorted_upto_step [OF "1.prems" lt] .
    then have "sorted_wrt by_score (sort_outer (i + 1) (sort_inner i (i + 1) es)) \<and>
        mset (sort_outer (i + 1) (sort_inner i (i + 1) es)) = mset (sort_inner i (i + 1) es)"
      using "1.IH" [OF True] by simp
    then show ?thesis
      using True by (subst (1 2) sort_outer.simps) (simp add: mset_sort_inner)
  next
    case False
    then have short: "length (drop i es) \<le> 1" by simp
    then have "sorted_wrt by_score (drop i es)"
      by (cases "drop i es") simp_all
    then have "sorted_wrt by_score (take i es @ drop i es)"
      using "1.prems" unfolding sorted_wrt_append sorted_upto_def by blast
    then show ?thesis
      using False by (subst (1 2) sort_outer.simps) simp
  qed
qed

lemma sort_outer_0:
  "sorted_wrt by_score (sort_outer 0 es)" "mset (sort_outer 0 es) = mset es"
  using sort_outer_sorts [of 0 es] by (simp_all add: sorted_upto_def)

lemma length_sort_outer [simp]: "length (sort_outer 0 es) = length es"
  using sort_outer_0(2) [of es] by (metis size_mset)

lemma add_positions_fields:
  "length (add_positions i es) = length es"
  "map Entry_Score (add_positions i es) = map Entry_Score es"
  "map unranked (add_positions i es) = map unranked es"
  "map Position (add_positions i es) = map word_of_nat [i + 1..<i + 1 + length es]"
proof (induction es arbitrary: i)
  case Nil
  {
    case 1 show ?case by simp
  next
    case 2 show ?case by simp
  next
    case 3 show ?case by simp
  next
    case 4 show ?case by simp
  }
next
  case (Cons e es)
  {
    case 1 show ?case using Cons(1) by simp
  next
    case 2 show ?case using Cons(2) by simp
  next
    case 3 show ?case using Cons(3) by (simp add: unranked_def)
  next
    case 4
    have "i + 1 < i + 1 + length (e # es)"
      by simp
    then have "[i + 1..<i + 1 + length (e # es)] = (i + 1) # [Suc (i + 1)..<i + 1 + length (e # es)]"
      by (rule upt_conv_Cons)
    then have "[i + 1..<i + 1 + length (e # es)] = (i + 1) # [i + 1 + 1..<i + 1 + 1 + length es]"
      by simp
    then show ?case using Cons(4) [of "i + 1"] by simp
  }
qed

lemma sorted_add_positions:
  "sorted_wrt by_score (add_positions i es) = sorted_wrt by_score es"
proof -
  have "by_score = (\<lambda>a b. Entry_Score b \<le>s Entry_Score a)"
    by (simp add: fun_eq_iff by_score_def)
  then have "sorted_wrt by_score xs = sorted_wrt (\<lambda>a b. b \<le>s a) (map Entry_Score xs)" for xs
    by (simp add: sorted_wrt_map)
  then show ?thesis
    by (simp add: add_positions_fields(2))
qed

lemma sint_of_nat_small:
  "n < 2 ^ 63 \<Longrightarrow> sint (word_of_nat n :: 64 word) = int n"
proof -
  assume "n < 2 ^ 63"
  then have "int n < 2 ^ 63"
    by (metis of_nat_less_iff of_nat_numeral of_nat_power)
  then show ?thesis
    by (simp add: signed_of_nat signed_take_bit_int_eq_self)
qed

lemma sint_inj: "sint (a :: 64 word) = sint b \<Longrightarrow> a = b"
  by (rule signed_word_eqI)

lemma sorted_scores_unique:
  fixes xs ys :: "go_int list"
  assumes "sorted_wrt (\<lambda>a b. b \<le>s a) xs" and "sorted_wrt (\<lambda>a b. b \<le>s a) ys"
    and "mset xs = mset ys"
  shows "xs = ys"
proof -
  have desc: "sorted (rev (map sint zs))" if "sorted_wrt (\<lambda>a b. b \<le>s a) zs" for zs :: "go_int list"
  proof -
    have "sorted_wrt (\<lambda>a b. b \<le> a) (map sint zs)"
      using that by (simp add: sorted_wrt_map word_sle_eq)
    then show ?thesis
      by (simp add: sorted_wrt_rev)
  qed
  have m: "mset (rev (map sint ys)) = mset (rev (map sint xs))"
    using assms(3) by simp
  have "sort (rev (map sint xs)) = rev (map sint xs)"
    using desc [OF assms(1)] by (simp add: sorted_sort_id)
  moreover have "sort (rev (map sint xs)) = rev (map sint ys)"
    using m desc [OF assms(2)] by (rule properties_for_sort)
  ultimately have "map sint xs = map sint ys"
    by simp
  then show ?thesis
    by (simp add: inj_on_def sint_inj inj_on_map_eq_map [of sint])
qed

lemma Quiz_GetLeaderboard_props:
  "length (Quiz_GetLeaderboard cs q) = length (Participants q)"
  "sorted_wrt by_score (Quiz_GetLeaderboard cs q)"
  "map Position (Quiz_GetLeaderboard cs q) = map word_of_nat [1..<Suc (length (Participants q))]"
  "mset (map unranked (Quiz_GetLeaderboard cs q)) =
     mset (map (\<lambda>(k, user). entry_of_user user) (Participants q))"
proof -
  define es where "es = map (\<lambda>(k, user). entry_of_user user) (range_order cs (Participants q))"
  have gl: "Quiz_GetLeaderboard cs q = add_positions 0 (sort_outer 0 es)"
    by (simp add: Quiz_GetLeaderboard_def es_def)
  have len: "length es = length (Participants q)"
    by (simp add: es_def)
  show "length (Quiz_GetLeaderboard cs q) = length (Participants q)"
    by (simp add: gl add_positions_fields(1) len)
  show "sorted_wrt by_score (Quiz_GetLeaderboard cs q)"
    by (simp add: gl sorted_add_positions sort_outer_0(1))
  show "map Position (Quiz_GetLeaderboard cs q) = map word_of_nat [1..<Suc (length (Participants q))]"
    using add_positions_fields(4) [of 0 "sort_outer 0 es"] by (simp add: gl len)
  have u: "map unranked es = es"
    by (simp add: es_def unranked_def entry_of_user_def split_def)
  have "mset (map unranked (Quiz_GetLeaderboard cs q)) = mset (map unranked es)"
    by (simp add: gl add_positions_fields(3) sort_outer_0(2))
  also have "\<dots> = mset (map (\<lambda>(k, user). entry_of_user user) (Participants q))"
    unfolding u by (simp add: es_def mset_range_order)
  finally show "mset (map unranked (Quiz_GetLeaderboard cs q)) =
     mset (map (\<lambda>(k, user). entry_of_user user) (Participants q))" .
qed

lemma Quiz_GetLeaderboard_scores:
  "map Entry_Score (Quiz_GetLeaderboard cs1 q) = map Entry_Score (Quiz_GetLeaderboard cs2 q)"
proof (rule sorted_scores_unique)
  have by_score: "by_score = (\<lambda>a b. Entry_Score b \<le>s Entry_Score a)"
    by (simp add: fun_eq_iff by_score_def)
  show "sorted_wrt (\<lambda>a b. b \<le>s a) (map Entry_Score (Quiz_GetLeaderboard cs1 q))"
    using Quiz_GetLeaderboard_props(2) [of cs1 q] by (simp add: sorted_wrt_map by_score)
  show "sorted_wrt (\<lambda>a b. b \<le>s a) (map Entry_Score (Quiz_GetLeaderboard cs2 q))"
    using Quiz_GetLeaderboard_props(2) [of cs2 q] by (simp add: sorted_wrt_map by_score)
  have "map Entry_Score (map unranked es) = map Entry_Score es" for es
    by (simp add: unranked_def)
  then have "mset (map Entry_Score (Quiz_GetLeaderboard cs q)) =
      mset (map Entry_Score (map (\<lambda>(k, user). entry_of_user user) (Participants q)))" for cs
    using Quiz_GetLeaderboard_props(4) [of cs q] by (metis mset_map)
  then show "mset (map Entry_Score (Quiz_GetLeaderboard cs1 q)) =
      mset (map Entry_Score (Quiz_GetLeaderboard cs2 q))"
    by simp
qed

lemma entry_eqI: "unranked a = unranked b \<Longrightarrow> Position a = Position b \<Longrightarrow> a = b"
  by (cases a, cases b) (simp add: unranked_def)

lemma entries_eqI:
  "map unranked xs = map unranked ys \<Longrightarrow> map Position xs = map Position ys \<Longrightarrow> xs = ys"
proof (induction xs arbitrary: ys)
  case Nil
  then show ?case by simp
next
  case (Cons x xs)
  then obtain y ys' where ys: "ys = y # ys'"
    by (cases ys) auto
  then show ?case
    using Cons by (simp add: entry_eqI)
qed

lemma Quiz_GetLeaderboard_no_ties:
  assumes "distinct (map (\<lambda>(k, user). User_Score user) (Participants q))"
  shows "Quiz_GetLeaderboard cs1 q = Quiz_GetLeaderboard cs2 q"
proof (rule entries_eqI)
  define E where "E = map (\<lambda>(k, user). entry_of_user user) (Participants q)"
  define U1 where "U1 = map unranked (Quiz_GetLeaderboard cs1 q)"
  define U2 where "U2 = map unranked (Quiz_GetLeaderboard cs2 q)"
  have "map Entry_Score E = map (\<lambda>(k, user). User_Score user) (Participants q)"
    by (simp add: E_def entry_of_user_def split_def)
  then have "distinct (map Entry_Score E)"
    using assms by simp
  then have inj: "inj_on Entry_Score (set E)"
    by (simp add: distinct_map)
  have m1: "mset U1 = mset E" and m2: "mset U2 = mset E"
    unfolding U1_def U2_def E_def by (rule Quiz_GetLeaderboard_props(4))+
  have s1: "set U1 = set E" and s2: "set U2 = set E"
    using m1 m2 by (metis set_mset_mset)+
  have "map Entry_Score U1 = map Entry_Score (Quiz_GetLeaderboard cs1 q)"
    and "map Entry_Score U2 = map Entry_Score (Quiz_GetLeaderboard cs2 q)"
    by (simp_all add: U1_def U2_def unranked_def)
  then have "map Entry_Score U1 = map Entry_Score U2"
    using Quiz_GetLeaderboard_scores [of cs1 q cs2] by simp
  moreover have "inj_on Entry_Score (set U1 \<union> set U2)"
    using inj s1 s2 by simp
  ultimately have "U1 = U2"
    by (simp add: inj_on_map_eq_map)
  then show "map unranked (Quiz_GetLeaderboard cs1 q) = map unranked (Quiz_GetLeaderboard cs2 q)"
    by (simp add: U1_def U2_def)
  show "map Position (Quiz_GetLeaderboard cs1 q) = map Position (Quiz_GetLeaderboard cs2 q)"
    by (simp add: Quiz_GetLeaderboard_props(3))
qed

lemma sort_inner_no_swap:
  assumes "\<forall>k. j \<le> k \<and> k < length es \<longrightarrow> \<not> Entry_Score (es ! i) <s Entry_Score (es ! k)"
  shows "sort_inner i j es = es"
  using assms
proof (induction i j es rule: sort_inner.induct)
  case (1 i j entries)
  show ?case
  proof (cases "j < length entries")
    case False
    then show ?thesis
      by (subst sort_inner.simps) simp
  next
    case True
    have n: "\<not> Entry_Score (entries ! i) <s Entry_Score (entries ! j)"
      using "1.prems" True by simp
    have "sort_inner i (j + 1) entries = entries"
    proof -
      have "\<forall>k. j + 1 \<le> k \<and> k < length entries \<longrightarrow>
          \<not> Entry_Score (entries ! i) <s Entry_Score (entries ! k)"
        using "1.prems" by simp
      then show ?thesis
        using "1.IH" [OF True] n by simp
    qed
    then show ?thesis
      using True n by (subst sort_inner.simps) simp
  qed
qed

lemma sort_outer_sorted:
  assumes "sorted_wrt by_score es"
  shows "sort_outer i es = es"
  using assms
proof (induction i es rule: sort_outer.induct)
  case (1 i entries)
  show ?case
  proof (cases "int i < int (length entries) - 1")
    case False
    then show ?thesis
      by (subst sort_outer.simps) simp
  next
    case True
    have "\<forall>k. i + 1 \<le> k \<and> k < length entries \<longrightarrow>
        \<not> Entry_Score (entries ! i) <s Entry_Score (entries ! k)"
    proof (intro allI impI)
      fix k assume k: "i + 1 \<le> k \<and> k < length entries"
      then have "by_score (entries ! i) (entries ! k)"
        using "1.prems" by (simp add: sorted_wrt_iff_nth_less)
      then show "\<not> Entry_Score (entries ! i) <s Entry_Score (entries ! k)"
        by (simp add: by_score_iff)
    qed
    then have s: "sort_inner i (i + 1) entries = entries"
      by (rule sort_inner_no_swap)
    have "sort_outer (i + 1) (sort_inner i (i + 1) entries) = sort_inner i (i + 1) entries"
      using "1.IH" [OF True] "1.prems" s by simp
    then show ?thesis
      using True s by (subst sort_outer.simps) simp
  qed
qed

lemma map_Entry_UserID_add_positions:
  "map Entry_UserID (add_positions i es) = map Entry_UserID es"
  by (induction es arbitrary: i) simp_all

lemma Quiz_GetLeaderboard_of_sorted:
  assumes "range_order cs (Participants q) = xs"
    and "sorted (map (\<lambda>(k, user). - sint (User_Score user)) xs)"
  shows "map Entry_UserID (Quiz_GetLeaderboard cs q) = map (\<lambda>(k, user). User_ID user) xs"
proof -
  have "sorted_wrt (\<lambda>x y. (case x of (k, user) \<Rightarrow> - sint (User_Score user))
                         \<le> (case y of (k, user) \<Rightarrow> - sint (User_Score user))) xs"
    using assms(2) by (simp add: sorted_map)
  then have "sorted_wrt (\<lambda>x y. by_score (case x of (k, user) \<Rightarrow> entry_of_user user)
                                   (case y of (k, user) \<Rightarrow> entry_of_user user)) xs"
    by (rule sorted_wrt_mono_rel [rotated])
      (auto simp: by_score_def entry_of_user_def word_sle_eq)
  then have "sorted_wrt by_score (map (\<lambda>(k, user). entry_of_user user) xs)"
    by (simp add: sorted_wrt_map)
  then have "sort_outer 0 (map (\<lambda>(k, user). entry_of_user user) xs) =
      map (\<lambda>(k, user). entry_of_user user) xs"
    by (rule sort_outer_sorted)
  then have "map Entry_UserID (Quiz_GetLeaderboard cs q) =
      map Entry_UserID (map (\<lambda>(k, user). entry_of_user user) xs)"
    by (simp add: Quiz_GetLeaderboard_def assms(1) map_Entry_UserID_add_positions)
  also have "\<dots> = map (\<lambda>(k, user). User_ID user) xs"
    by (simp add: entry_of_user_def split_def)
  finally show ?thesis .
qed

lemma Quiz_GetLeaderboard_ties:
  assumes "(k1, u1) \<in> set (Participants q)" and "(k2, u2) \<in> set (Participants q)"
    and "User_Score u1 = User_Score u2" and "User_ID u1 \<noteq> User_ID u2"
  shows "\<exists>cs1 cs2. Quiz_GetLeaderboard cs1 q \<noteq> Quiz_GetLeaderboard cs2 q"
proof -
  define key where "key = (\<lambda>(k :: string, user :: User). - sint (User_Score user))"
  define xs1 where "xs1 = sort_key key (Participants q)"
  have m1: "mset xs1 = mset (Participants q)"
    by (simp add: xs1_def)
  have s1: "sorted (map key xs1)"
    by (simp add: xs1_def)
  have "set xs1 = set (Participants q)"
    by (simp add: xs1_def)
  then obtain a b where a: "a < length xs1" "xs1 ! a = (k1, u1)"
    and b: "b < length xs1" "xs1 ! b = (k2, u2)"
    using assms(1,2) by (metis in_set_conv_nth)
  define xs2 where "xs2 = xs1[b := xs1 ! a, a := xs1 ! b]"
  have m2: "mset xs2 = mset (Participants q)"
    using a(1) b(1) m1 by (simp add: xs2_def mset_swap)
  have k: "key (xs1 ! a) = key (xs1 ! b)"
    by (simp add: a b key_def assms(3))
  have "map key xs2 = (map key xs1)[b := key (xs1 ! a), a := key (xs1 ! b)]"
    by (simp add: xs2_def map_update)
  also have "\<dots> = map key xs1"
  proof (rule nth_equalityI)
    show "length ((map key xs1)[b := key (xs1 ! a), a := key (xs1 ! b)]) = length (map key xs1)"
      by simp
    fix n assume "n < length ((map key xs1)[b := key (xs1 ! a), a := key (xs1 ! b)])"
    then have "n < length xs1"
      by simp
    then show "(map key xs1)[b := key (xs1 ! a), a := key (xs1 ! b)] ! n = map key xs1 ! n"
      using a(1) b(1) k by (auto simp: nth_list_update)
  qed
  finally have s2: "sorted (map key xs2)"
    using s1 by simp
  obtain cs1 where c1: "range_order cs1 (Participants q) = xs1"
    using range_order_complete [OF m1] by blast
  obtain cs2 where c2: "range_order cs2 (Participants q) = xs2"
    using range_order_complete [OF m2] by blast
  have l1: "map Entry_UserID (Quiz_GetLeaderboard cs1 q) = map (\<lambda>(k, user). User_ID user) xs1"
    using Quiz_GetLeaderboard_of_sorted [OF c1] s1 by (simp add: key_def)
  have l2: "map Entry_UserID (Quiz_GetLeaderboard cs2 q) = map (\<lambda>(k, user). User_ID user) xs2"
    using Quiz_GetLeaderboard_of_sorted [OF c2] s2 by (simp add: key_def)
  have "map (\<lambda>(k, user). User_ID user) xs1 ! a = User_ID u1"
    using a by simp
  moreover have "map (\<lambda>(k, user). User_ID user) xs2 ! a = User_ID u2"
    using a b by (simp add: xs2_def)
  ultimately have "map (\<lambda>(k, user). User_ID user) xs1 \<noteq> map (\<lambda>(k, user). User_ID user) xs2"
    using assms(4) by metis
  then have "Quiz_GetLeaderboard cs1 q \<noteq> Quiz_GetLeaderboard cs2 q"
    using l1 l2 by metis
  then show ?thesis
    by blast
qed

lemma GetLeaderboard_result:
  assumes "fst (GetLeaderboard env qs quizID) = Inr lb"
  shows "\<exists>quiz. fst (GetQuiz env qs quizID) = Inr quiz \<and>
           lb = Quiz_GetLeaderboard (range_participants env) quiz"
proof (cases "GetQuiz env qs quizID")
  case (Pair r qs1)
  then show ?thesis
    using assms by (cases r) (simp_all add: GetLeaderboard_def Let_def)
qed

lemma positions_as_numbers:
  assumes "n < 2 ^ 63"
  shows "map sint (map word_of_nat [1..<Suc n] :: go_int list) = map int [1..<Suc n]"
proof -
  have "sint (word_of_nat k :: go_int) = int k" if "k \<in> set [1..<Suc n]" for k
  proof -
    have "k \<le> n" using that by auto
    then have "k < 2 ^ 63" using assms by simp
    then show ?thesis by (rule sint_of_nat_small)
  qed
  then show ?thesis by simp
qed

lemma tie_quiz_stored_order:
  "map Entry_UserID (Quiz_GetLeaderboard [] tie_quiz) = [''alice001'', ''carol001'', ''bob00001'']"
  by (simp add: Quiz_GetLeaderboard_def tie_quiz_def geo_def alice_def bob_def carol_def
      entry_of_user_def sort_outer.simps sort_inner.simps word_sless_alt)

lemma tie_quiz_other_order:
  "map Entry_UserID (Quiz_GetLeaderboard [2] tie_quiz) = [''carol001'', ''alice001'', ''bob00001'']"
  by (simp add: Quiz_GetLeaderboard_def tie_quiz_def geo_def alice_def bob_def carol_def
      entry_of_user_def sort_outer.simps sort_inner.simps word_sless_alt)

lemma subscription_loop_once:
  "snd (subscription_loop qs [(env, Inr msg)]) = snd (on_message env qs msg)"
  by (simp split: prod.splits option.splits)

lemma hub_ok_change_client:
  assumes "hub_ok qs" and "objects qs p = Some c" and "open_client c \<longrightarrow> open_client c'"
  shows "hub_ok (qs\<lparr>objects := (objects qs)(p \<mapsto> c')\<rparr>)"
  unfolding hub_ok_def
proof (intro conjI ballI)
  show "distinct (map fst (Clients (qs\<lparr>objects := (objects qs)(p \<mapsto> c')\<rparr>)))"
    using assms(1) by (simp add: hub_ok_def)
next
  fix x
  assume x: "x \<in> set (Clients (qs\<lparr>objects := (objects qs)(p \<mapsto> c')\<rparr>))"
  obtain q b where qb: "x = (q, b)"
    by (cases x)
  have "case objects qs q of None \<Rightarrow> False | Some c \<Rightarrow> open_client c"
    using assms(1) x qb by (auto simp: hub_ok_def)
  then show "case x of (q, b) \<Rightarrow>
      (case objects (qs\<lparr>objects := (objects qs)(p \<mapsto> c')\<rparr>) q of
         None \<Rightarrow> False | Some c \<Rightarrow> open_client c)"
    using assms(2,3) qb by (auto split: option.splits)
qed

lemma hub_ok_new_object:
  assumes "hub_ok qs" and "objects qs p = None"
  shows "hub_ok (qs\<lparr>objects := (objects qs)(p \<mapsto> c')\<rparr>)"
  unfolding hub_ok_def
proof (intro conjI ballI)
  show "distinct (map fst (Clients (qs\<lparr>objects := (objects qs)(p \<mapsto> c')\<rparr>)))"
    using assms(1) by (simp add: hub_ok_def)
next
  fix x
  assume x: "x \<in> set (Clients (qs\<lparr>objects := (objects qs)(p \<mapsto> c')\<rparr>))"
  obtain q b where qb: "x = (q, b)"
    by (cases x)
  have "case objects qs q of None \<Rightarrow> False | Some c \<Rightarrow> open_client c"
    using assms(1) x qb by (auto simp: hub_ok_def)
  then show "case x of (q, b) \<Rightarrow>
      (case objects (qs\<lparr>objects := (objects qs)(p \<mapsto> c')\<rparr>) q of
         None \<Rightarrow> False | Some c \<Rightarrow> open_client c)"
    using assms(2) qb by (auto split: option.splits)
qed

lemma hub_ok_hub_do: "hub_ok qs \<Longrightarrow> hub_ok (hub_do qs call)"
proof (cases call)
  case (Connect p cid)
  assume ok: "hub_ok qs"
  show ?thesis
  proof (cases "objects qs p")
    case None
    have "hub_ok (qs\<lparr>objects := (objects qs)(p \<mapsto> new_client cid)\<rparr>)"
      using ok None by (rule hub_ok_new_object)
    moreover have "open_client (new_client cid)"
      by (simp add: new_client_def open_client_def)
    ultimately have
      "hub_ok (snd (RegisterClient (qs\<lparr>objects := (objects qs)(p \<mapsto> new_client cid)\<rparr>) p))"
      using hub_ok_RegisterClient(2)
        [of "qs\<lparr>objects := (objects qs)(p \<mapsto> new_client cid)\<rparr>" p "new_client cid"]
      by simp
    then show ?thesis using Connect None by simp
  next
    case (Some c)
    then show ?thesis using Connect ok by simp
  qed
next
  case (Disconnect p)
  assume "hub_ok qs"
  then show ?thesis using Disconnect hub_ok_UnregisterClient(2) by simp
next
  case (Bind p quizID userID)
  assume ok: "hub_ok qs"
  show ?thesis
  proof (cases "objects qs p")
    case None
    then show ?thesis using Bind ok by simp
  next
    case (Some c)
    have "hub_ok (qs\<lparr>objects := (objects qs)(p \<mapsto> c\<lparr>Client_QuizID := quizID, Client_UserID := userID\<rparr>)\<rparr>)"
      using ok Some by (rule hub_ok_change_client) (simp add: open_client_def)
    then show ?thesis using Bind Some by simp
  qed
next
  case (Take p)
  assume ok: "hub_ok qs"
  show ?thesis
  proof (cases "objects qs p")
    case None
    then show ?thesis using Take ok by simp
  next
    case (Some c)
    have "hub_ok (qs\<lparr>objects := (objects qs)(p \<mapsto>
              c\<lparr>Send := map_option (\<lambda>ch. ch\<lparr>buf := tl (buf ch)\<rparr>) (Send c)\<rparr>)\<rparr>)"
      using ok Some by (rule hub_ok_change_client) (auto simp: open_client_def split: option.splits)
    then show ?thesis using Take Some by simp
  qed
next
  case (Broadcast pub_ok cs quizID message)
  assume "hub_ok qs"
  then show ?thesis using Broadcast hub_ok_after_broadcast by simp
qed

lemma hub_ok_reachable:
  "Clients qs = [] \<Longrightarrow> hub_ok (foldl hub_do qs calls)"
proof -
  have "hub_ok qs \<Longrightarrow> hub_ok (foldl hub_do qs calls)" for qs
    by (induction calls arbitrary: qs) (simp_all add: hub_ok_hub_do)
  moreover assume "Clients qs = []"
  then have "hub_ok qs" by (simp add: hub_ok_def)
  ultimately show ?thesis by simp
qed

section \<open>The claims\<close>

text \<open>
  C1 fails on the code. \<^verbatim>\<open>SubmitAnswer\<close> holds no lock from the check
  \<^verbatim>\<open>user.HasAnswered(questionID)\<close> to \<^verbatim>\<open>user.AddAnswer(answerRecord)\<close>, so two calls
  for one quiz, user and question that two requests make at the same time can both pass
  the check before either appends. Here Alice has an answer to \<^verbatim>\<open>q1\<close> and none to
  \<^verbatim>\<open>q2\<close>; two calls for \<^verbatim>\<open>q2\<close> both run up to the answer record, and then both
  run to their end. Both return nil; Alice has two answers to \<^verbatim>\<open>q2\<close>, and her score
  counts its points twice. Calls that run one after the other do not do this: the second
  of them fails with "user already answered this question" (lemma \<open>SubmitAnswer_twice\<close>)
  and no user gets two answers to one question (lemma \<open>answers_unique_serve_all\<close>).
\<close>

theorem overlapping_answers_are_both_recorded:
  "SubmitAnswer_check env0 service0 ''geo00001'' ''alice001'' ''q2'' 2 =
     (Inr \<lparr>QuestionID = ''q2'', Answer_Answer = 2, Answer_Correct = True, Answer_Points = 15,
           AnsweredAt = 100\<rparr>, service0) \<and>
   SubmitAnswer_check env_later service0 ''geo00001'' ''alice001'' ''q2'' 2 =
     (Inr \<lparr>QuestionID = ''q2'', Answer_Answer = 2, Answer_Correct = True, Answer_Points = 15,
           AnsweredAt = 101\<rparr>, service0) \<and>
   SubmitAnswer_commit env0 service0 ''geo00001'' ''alice001''
       \<lparr>QuestionID = ''q2'', Answer_Answer = 2, Answer_Correct = True, Answer_Points = 15,
        AnsweredAt = 100\<rparr> =
     Some (None, service0\<lparr>Quizzes := [''geo00001'' \<mapsto> geo\<lparr>Participants :=
       [(''alice001'', alice\<lparr>Answers := Answers alice @
           [\<lparr>QuestionID = ''q2'', Answer_Answer = 2, Answer_Correct = True, Answer_Points = 15,
             AnsweredAt = 100\<rparr>], User_Score := 25\<rparr>),
        (''bob00001'', bob)]\<rparr>]\<rparr>) \<and>
   SubmitAnswer_commit env_later (service0\<lparr>Quizzes := [''geo00001'' \<mapsto> geo\<lparr>Participants :=
       [(''alice001'', alice\<lparr>Answers := Answers alice @
           [\<lparr>QuestionID = ''q2'', Answer_Answer = 2, Answer_Correct = True, Answer_Points = 15,
             AnsweredAt = 100\<rparr>], User_Score := 25\<rparr>),
        (''bob00001'', bob)]\<rparr>]\<rparr>) ''geo00001'' ''alice001''
       \<lparr>QuestionID = ''q2'', Answer_Answer = 2, Answer_Correct = True, Answer_Points = 15,
        AnsweredAt = 101\<rparr> =
     Some (None, service0\<lparr>Quizzes := [''geo00001'' \<mapsto> geo\<lparr>Participants :=
       [(''alice001'', alice\<lparr>Answers := Answers alice @
           [\<lparr>QuestionID = ''q2'', Answer_Answer = 2, Answer_Correct = True, Answer_Points = 15,
             AnsweredAt = 100\<rparr>,
            \<lparr>QuestionID = ''q2'', Answer_Answer = 2, Answer_Correct = True, Answer_Points = 15,
             AnsweredAt = 101\<rparr>], User_Score := 40\<rparr>),
        (''bob00001'', bob)]\<rparr>]\<rparr>) \<and>
   \<not> answers_unique (alice\<lparr>Answers := Answers alice @
           [\<lparr>QuestionID = ''q2'', Answer_Answer = 2, Answer_Correct = True, Answer_Points = 15,
             AnsweredAt = 100\<rparr>,
            \<lparr>QuestionID = ''q2'', Answer_Answer = 2, Answer_Correct = True, Answer_Points = 15,
             AnsweredAt = 101\<rparr>], User_Score := 40\<rparr>)"
  by (simp add: SubmitAnswer_check_def SubmitAnswer_commit_def service0_def geo_def alice_def
      bob_def env0_def env_later_def HasAnswered_def getSampleQuestions_def Let_def AddAnswer_def
      save_quiz_and_user_def SaveQuiz_def SaveUser_def broadcastToQuiz_def PublishMessage_def
      broadcastLeaderboard_def GetLeaderboard_def SaveLeaderboard_def GetScore_def
      answers_unique_def GetQuiz_def)

text \<open>
  C2. The stored score of a user is the sum of the points of the answers recorded as
  correct, the sum being the one of Go's \<^verbatim>\<open>int\<close>: the user that \<^verbatim>\<open>JoinQuiz\<close>
  returns has it, \<^verbatim>\<open>AddAnswer\<close> keeps it, and if every user of every quiz the service
  holds has it, then so has every user after any sequence of calls, whatever they return.
\<close>

theorem score_equals_sum_of_correct_points:
  "(fst (JoinQuiz env qs quizID userName) = Inr user \<longrightarrow> score_consistent user) \<and>
   (score_consistent u \<longrightarrow> score_consistent (AddAnswer u a)) \<and>
   (all_users score_consistent qs \<longrightarrow> all_users score_consistent (serve_all qs reqs))"
proof (intro conjI impI)
  assume "fst (JoinQuiz env qs quizID userName) = Inr user"
  then have "user = new_user env userName"
    by (rule JoinQuiz_result)
  then show "score_consistent user"
    by (simp add: score_consistent_new_user)
next
  assume "score_consistent u"
  then show "score_consistent (AddAnswer u a)"
    by (rule score_consistent_AddAnswer)
next
  assume inv: "all_users score_consistent qs"
  show "all_users score_consistent (serve_all qs reqs)"
    by (rule all_users_serve_all [OF _ _ inv])
      (simp_all add: score_consistent_new_user score_consistent_AddAnswer)
qed

theorem score_equals_sum_of_correct_points_witness:
  "fst (JoinQuiz env0 service0 ''geo00001'' ''Carol'') = Inr (new_user env0 ''Carol'') \<and>
   score_consistent (new_user env0 ''Carol'') \<and>
   score_consistent alice \<and>
   score_consistent (AddAnswer alice (new_answer env0 (getSampleQuestions ! 1) ''q2'' 2)) \<and>
   User_Score (AddAnswer alice (new_answer env0 (getSampleQuestions ! 1) ''q2'' 2)) = 25 \<and>
   all_users score_consistent service0 \<and>
   all_users score_consistent
     (serve_all service0
        [(env0, SubmitAnswerReq ''geo00001'' ''alice001'' ''q2'' 2),
         (env0, JoinQuizReq ''geo00001'' ''Carol''),
         (env0, SubmitAnswerReq ''geo00001'' ''bob00001'' ''q3'' 0)])"
proof -
  have j: "fst (JoinQuiz env0 service0 ''geo00001'' ''Carol'') = Inr (new_user env0 ''Carol'')"
    by (simp add: JoinQuiz_def service0_def env0_def new_user_def Let_def AddParticipant_def
        save_quiz_and_user_def SaveQuiz_def SaveUser_def broadcastToQuiz_def PublishMessage_def
        broadcastLeaderboard_def GetLeaderboard_def SaveLeaderboard_def)
  have a: "score_consistent alice"
    by (simp add: alice_def score_consistent_def correct_points_sum_def)
  have s: "User_Score (AddAnswer alice (new_answer env0 (getSampleQuestions ! 1) ''q2'' 2)) = 25"
    by (simp add: alice_def AddAnswer_def new_answer_def getSampleQuestions_def Let_def)
  show ?thesis
    using j a s service0_scores
      score_equals_sum_of_correct_points [of env0 service0 "''geo00001''" "''Carol''"
        "new_user env0 ''Carol''" alice "new_answer env0 (getSampleQuestions ! 1) ''q2'' 2"
        "[(env0, SubmitAnswerReq ''geo00001'' ''alice001'' ''q2'' 2),
          (env0, JoinQuizReq ''geo00001'' ''Carol''),
          (env0, SubmitAnswerReq ''geo00001'' ''bob00001'' ''q3'' 0)]"]
    by simp
qed

text \<open>
  C3. \<^verbatim>\<open>SubmitAnswer\<close>, case by case, in terms of what the service holds. The quiz of
  a call is the one in memory under the identifier or, with none in memory, the one that
  a successful read finds in Redis; after the lookup it is in memory. No such quiz: "quiz
  not found", a not-found failure, and the service is as it was. The quiz has no
  participant under the user's identifier: "user not found", a not-found failure. One of
  the user's answers has the question's identifier: "user already answered this
  question", a conflict. None has, and no question of the quiz has this identifier:
  "question not found", a not-found failure. None has, and \<open>i\<close> is the first place in
  the quiz's questions with this identifier: the quiz in memory has, for this user, the
  former answers followed by the new record, whose flag says whether the choice is the
  correct index of the question at \<open>i\<close> and whose points are that question's points
  if so and 0 if not, and the former score plus these points; and the call returns no
  error when no broadcast panics, which is so in every registry that \<open>hub_ok\<close>
  describes. These five cases leave out no call.
\<close>

theorem submit_answer_case_by_case:
  "(Quizzes qs quizID0 = None \<and> (redis_quizzes (Redis qs) quizID0 = None \<or> \<not> get_ok env) \<longrightarrow>
      SubmitAnswer env qs quizID0 userID questionID answer = (Some (QuizNotFound quizID0), qs) \<and>
      kind_of (QuizNotFound quizID0) = NotFound) \<and>
   (found qs quizID quiz \<and> (Quizzes qs quizID \<noteq> None \<or> get_ok env) \<longrightarrow>
      (map_of (Participants quiz) userID0 = None \<longrightarrow>
         SubmitAnswer env qs quizID userID0 questionID answer =
           (Some (UserNotFound userID0), qs\<lparr>Quizzes := (Quizzes qs)(quizID \<mapsto> quiz)\<rparr>) \<and>
         kind_of (UserNotFound userID0) = NotFound) \<and>
      (map_of (Participants quiz) userID = Some user \<longrightarrow>
         (questionID1 \<in> QuestionID ` set (Answers user) \<longrightarrow>
            SubmitAnswer env qs quizID userID questionID1 answer =
              (Some AlreadyAnswered, qs\<lparr>Quizzes := (Quizzes qs)(quizID \<mapsto> quiz)\<rparr>) \<and>
            kind_of AlreadyAnswered = Conflict) \<and>
         (questionID2 \<notin> QuestionID ` set (Answers user) \<and>
          questionID2 \<notin> Question_ID ` set (Questions quiz) \<longrightarrow>
            SubmitAnswer env qs quizID userID questionID2 answer =
              (Some (QuestionNotFound questionID2), qs\<lparr>Quizzes := (Quizzes qs)(quizID \<mapsto> quiz)\<rparr>) \<and>
            kind_of (QuestionNotFound questionID2) = NotFound) \<and>
         (questionID \<notin> QuestionID ` set (Answers user) \<and>
          i < length (Questions quiz) \<and> Question_ID (Questions quiz ! i) = questionID \<and>
          (\<forall>j<i. Question_ID (Questions quiz ! j) \<noteq> questionID) \<longrightarrow>
            (let question = Questions quiz ! i;
                 correct = (answer = Question_Correct question);
                 points = (if correct then Question_Points question else 0);
                 user' = user\<lparr>Answers := Answers user @
                                 [\<lparr>QuestionID = questionID, Answer_Answer = answer,
                                   Answer_Correct = correct, Answer_Points = points,
                                   AnsweredAt = now env\<rparr>],
                              User_Score := User_Score user + points\<rparr>
             in Quizzes (snd (SubmitAnswer env qs quizID userID questionID answer)) =
                  (Quizzes qs)(quizID \<mapsto>
                     quiz\<lparr>Participants := AList.update userID user' (Participants quiz)\<rparr>) \<and>
                (hub_ok qs \<longrightarrow>
                   fst (SubmitAnswer env qs quizID userID questionID answer) = None)))))"
proof (intro conjI impI)
  assume h: "Quizzes qs quizID0 = None \<and> (redis_quizzes (Redis qs) quizID0 = None \<or> \<not> get_ok env)"
  then have "GetQuiz env qs quizID0 = (Inl (QuizNotFound quizID0), qs)"
    using GetQuiz_absent by blast
  then show "SubmitAnswer env qs quizID0 userID questionID answer = (Some (QuizNotFound quizID0), qs)"
    by (rule SubmitAnswer_reject(1))
  show "kind_of (QuizNotFound quizID0) = NotFound"
    by simp
next
  assume "found qs quizID quiz \<and> (Quizzes qs quizID \<noteq> None \<or> get_ok env)"
  then have g: "GetQuiz env qs quizID = (Inr quiz, qs\<lparr>Quizzes := (Quizzes qs)(quizID \<mapsto> quiz)\<rparr>)"
    using GetQuiz_present by blast
  {
    assume "map_of (Participants quiz) userID0 = None"
    then show "SubmitAnswer env qs quizID userID0 questionID answer =
           (Some (UserNotFound userID0), qs\<lparr>Quizzes := (Quizzes qs)(quizID \<mapsto> quiz)\<rparr>)"
      using SubmitAnswer_reject(2) [OF g] by simp
    show "kind_of (UserNotFound userID0) = NotFound"
      by simp
  }
  assume u: "map_of (Participants quiz) userID = Some user"
  {
    assume "questionID1 \<in> QuestionID ` set (Answers user)"
    then have "HasAnswered user questionID1"
      by (simp add: HasAnswered_iff)
    then show "SubmitAnswer env qs quizID userID questionID1 answer =
              (Some AlreadyAnswered, qs\<lparr>Quizzes := (Quizzes qs)(quizID \<mapsto> quiz)\<rparr>)"
      using SubmitAnswer_reject(3) [OF g u] by simp
    show "kind_of AlreadyAnswered = Conflict"
      by simp
  }
  {
    assume h: "questionID2 \<notin> QuestionID ` set (Answers user) \<and>
          questionID2 \<notin> Question_ID ` set (Questions quiz)"
    then have n: "\<not> HasAnswered user questionID2"
      by (simp add: HasAnswered_iff)
    have f: "find_question (Questions quiz) questionID2 = None"
      using h by (simp add: find_question_None_iff)
    show "SubmitAnswer env qs quizID userID questionID2 answer =
              (Some (QuestionNotFound questionID2), qs\<lparr>Quizzes := (Quizzes qs)(quizID \<mapsto> quiz)\<rparr>)"
      using SubmitAnswer_reject(4) [OF g u n f] .
    show "kind_of (QuestionNotFound questionID2) = NotFound"
      by simp
  }
  assume h: "questionID \<notin> QuestionID ` set (Answers user) \<and>
          i < length (Questions quiz) \<and> Question_ID (Questions quiz ! i) = questionID \<and>
          (\<forall>j<i. Question_ID (Questions quiz ! j) \<noteq> questionID)"
  then have n: "\<not> HasAnswered user questionID"
    by (simp add: HasAnswered_iff)
  have f: "find_question (Questions quiz) questionID = Some (Questions quiz ! i)"
    using h find_question_first [of i "Questions quiz" questionID] by blast
  have "Quizzes (snd (SubmitAnswer env qs quizID userID questionID answer)) =
      (Quizzes qs)(quizID \<mapsto> quiz\<lparr>Participants :=
         AList.update userID (AddAnswer user (new_answer env (Questions quiz ! i) questionID answer))
           (Participants quiz)\<rparr>)"
    using SubmitAnswer_accept(1) [OF g u n f refl] .
  moreover have "hub_ok qs \<longrightarrow> fst (SubmitAnswer env qs quizID userID questionID answer) = None"
    using SubmitAnswer_accept_outcome(2) [OF g u n f] by simp
  ultimately show "let question = Questions quiz ! i;
                 correct = (answer = Question_Correct question);
                 points = (if correct then Question_Points question else 0);
                 user' = user\<lparr>Answers := Answers user @
                                 [\<lparr>QuestionID = questionID, Answer_Answer = answer,
                                   Answer_Correct = correct, Answer_Points = points,
                                   AnsweredAt = now env\<rparr>],
                              User_Score := User_Score user + points\<rparr>
             in Quizzes (snd (SubmitAnswer env qs quizID userID questionID answer)) =
                  (Quizzes qs)(quizID \<mapsto>
                     quiz\<lparr>Participants := AList.update userID user' (Participants quiz)\<rparr>) \<and>
                (hub_ok qs \<longrightarrow>
                   fst (SubmitAnswer env qs quizID userID questionID answer) = None)"
    by (simp add: AddAnswer_new_answer Let_def)
qed


theorem submit_answer_case_by_case_witness:
  "SubmitAnswer env0 service0 ''nope0000'' ''alice001'' ''q2'' 2 =
     (Some (QuizNotFound ''nope0000''), service0) \<and>
   SubmitAnswer env0 service0 ''geo00001'' ''zed00000'' ''q2'' 2 =
     (Some (UserNotFound ''zed00000''), service0) \<and>
   SubmitAnswer env0 service0 ''geo00001'' ''alice001'' ''q1'' 2 = (Some AlreadyAnswered, service0) \<and>
   SubmitAnswer env0 service0 ''geo00001'' ''alice001'' ''zz'' 2 =
     (Some (QuestionNotFound ''zz''), service0) \<and>
   hub_ok service0 \<and>
   fst (SubmitAnswer env0 service0 ''geo00001'' ''alice001'' ''q2'' 2) = None \<and>
   Quizzes (snd (SubmitAnswer env0 service0 ''geo00001'' ''alice001'' ''q2'' 2)) =
     (Quizzes service0)(''geo00001'' \<mapsto>
        geo\<lparr>Participants :=
              [(''alice001'',
                alice\<lparr>Answers := Answers alice @
                         [\<lparr>QuestionID = ''q2'', Answer_Answer = 2, Answer_Correct = True,
                           Answer_Points = 15, AnsweredAt = 100\<rparr>],
                       User_Score := 25\<rparr>),
               (''bob00001'', bob)]\<rparr>)"
proof -
  have absent: "Quizzes service0 ''nope0000'' = None"
      "redis_quizzes (Redis service0) ''nope0000'' = None"
    by (simp_all add: service0_def redis_quizzes_def)
  have present: "found service0 ''geo00001'' geo" "Quizzes service0 ''geo00001'' \<noteq> None"
      "service0\<lparr>Quizzes := (Quizzes service0)(''geo00001'' \<mapsto> geo)\<rparr> = service0"
    by (simp_all add: service0_def found_def)
  have users: "map_of (Participants geo) ''zed00000'' = None"
      "map_of (Participants geo) ''alice001'' = Some alice"
    by (simp_all add: geo_def)
  have answers: "''q1'' \<in> QuestionID ` set (Answers alice)"
      "''zz'' \<notin> QuestionID ` set (Answers alice)" "''q2'' \<notin> QuestionID ` set (Answers alice)"
    by (simp_all add: alice_def)
  have questions: "''zz'' \<notin> Question_ID ` set (Questions geo)" "1 < length (Questions geo)"
      "Question_ID (Questions geo ! 1) = ''q2''" "\<forall>j<1. Question_ID (Questions geo ! j) \<noteq> ''q2''"
      "Question_Correct (Questions geo ! 1) = 2" "Question_Points (Questions geo ! 1) = 15"
    by (simp_all add: geo_def getSampleQuestions_def)
  have vals: "now env0 = 100" "User_Score alice + 15 = 25"
      "AList.update ''alice001'' u (Participants geo) = [(''alice001'', u), (''bob00001'', bob)]" for u
    by (simp_all add: env0_def alice_def geo_def)
  note t = submit_answer_case_by_case [where qs = service0 and env = env0
      and ?quizID0.0 = "''nope0000''" and quizID = "''geo00001''" and quiz = geo
      and ?userID0.0 = "''zed00000''" and userID = "''alice001''" and user = alice
      and ?questionID1.0 = "''q1''" and ?questionID2.0 = "''zz''" and questionID = "''q2''"
      and i = 1 and answer = 2]
  show ?thesis
    using t absent present users answers questions vals service0_hub_ok
    by (simp add: Let_def)
qed

text \<open>
  C4. In a registry where each registered pointer is registered once and has a made,
  open channel, which is the registry after any sequence of connections, disconnections,
  joins, reads from the queues and broadcasts that starts without clients (lemma
  \<open>hub_ok_reachable\<close>), \<^verbatim>\<open>broadcastToQuiz\<close> ends without a panic and keeps the
  registry in that state, whatever the order of the \<^verbatim>\<open>range\<close> and whether or not the
  publish succeeds. Every registered client bound to
  the quiz whose queue has room stays registered and has the event added at the end of
  its queue; every registered client bound to the quiz whose queue is full is no longer
  registered, has its channel closed and its queue as it was; every registered client
  bound to another quiz stays registered and is as it was; and the clients that are not
  registered are as they were and stay unregistered.
\<close>

theorem broadcast_reaches_the_quiz:
  assumes "hub_ok qs"
  shows "fst (broadcastToQuiz pub_ok cs qs quizID event) = None \<and>
         hub_ok (snd (broadcastToQuiz pub_ok cs qs quizID event)) \<and>
         (\<forall>p c. registered qs p \<and> objects qs p = Some c \<longrightarrow>
            (Client_QuizID c = quizID \<and> has_space c \<longrightarrow>
               registered (snd (broadcastToQuiz pub_ok cs qs quizID event)) p \<and>
               objects (snd (broadcastToQuiz pub_ok cs qs quizID event)) p = Some (enqueue event c)) \<and>
            (Client_QuizID c = quizID \<and> \<not> has_space c \<longrightarrow>
               \<not> registered (snd (broadcastToQuiz pub_ok cs qs quizID event)) p \<and>
               objects (snd (broadcastToQuiz pub_ok cs qs quizID event)) p = Some (close_client c)) \<and>
            (Client_QuizID c \<noteq> quizID \<longrightarrow>
               registered (snd (broadcastToQuiz pub_ok cs qs quizID event)) p \<and>
               objects (snd (broadcastToQuiz pub_ok cs qs quizID event)) p = Some c)) \<and>
         (\<forall>p. \<not> registered qs p \<longrightarrow>
            \<not> registered (snd (broadcastToQuiz pub_ok cs qs quizID event)) p \<and>
            objects (snd (broadcastToQuiz pub_ok cs qs quizID event)) p = objects qs p)"
proof (intro conjI allI impI)
  show "fst (broadcastToQuiz pub_ok cs qs quizID event) = None"
    by (simp add: broadcastToQuiz_result [OF assms])
  show "hub_ok (snd (broadcastToQuiz pub_ok cs qs quizID event))"
    using assms by (rule hub_ok_after_broadcast)
next
  fix p c
  assume "registered qs p \<and> objects qs p = Some c" "Client_QuizID c = quizID \<and> has_space c"
  then show "registered (snd (broadcastToQuiz pub_ok cs qs quizID event)) p"
    and "objects (snd (broadcastToQuiz pub_ok cs qs quizID event)) p = Some (enqueue event c)"
    by (simp_all add: registered_after_broadcast [OF assms] objects_after_broadcast [OF assms]
        dead_def after_broadcast_def)
next
  fix p c
  assume "registered qs p \<and> objects qs p = Some c" "Client_QuizID c = quizID \<and> \<not> has_space c"
  then show "\<not> registered (snd (broadcastToQuiz pub_ok cs qs quizID event)) p"
    and "objects (snd (broadcastToQuiz pub_ok cs qs quizID event)) p = Some (close_client c)"
    by (simp_all add: registered_after_broadcast [OF assms] objects_after_broadcast [OF assms]
        dead_def after_broadcast_def)
next
  fix p c
  assume "registered qs p \<and> objects qs p = Some c" "Client_QuizID c \<noteq> quizID"
  then show "registered (snd (broadcastToQuiz pub_ok cs qs quizID event)) p"
    and "objects (snd (broadcastToQuiz pub_ok cs qs quizID event)) p = Some c"
    by (simp_all add: registered_after_broadcast [OF assms] objects_after_broadcast [OF assms]
        dead_def after_broadcast_def)
next
  fix p
  assume "\<not> registered qs p"
  then show "\<not> registered (snd (broadcastToQuiz pub_ok cs qs quizID event)) p"
    and "objects (snd (broadcastToQuiz pub_ok cs qs quizID event)) p = objects qs p"
    by (simp_all add: registered_after_broadcast [OF assms] objects_after_broadcast [OF assms])
qed

theorem broadcast_reaches_the_quiz_witness:
  "hub_ok hub0 \<and>
   fst (broadcastToQuiz True [2, 0] hub0 ''geo00001'' event0) = None \<and>
   registered (snd (broadcastToQuiz True [2, 0] hub0 ''geo00001'' event0)) 1 \<and>
   objects (snd (broadcastToQuiz True [2, 0] hub0 ''geo00001'' event0)) 1 =
     Some (client1\<lparr>Send := Some \<lparr>buf = [event0], cap = 256, closed = False\<rparr>\<rparr>) \<and>
   \<not> registered (snd (broadcastToQuiz True [2, 0] hub0 ''geo00001'' event0)) 2 \<and>
   objects (snd (broadcastToQuiz True [2, 0] hub0 ''geo00001'' event0)) 2 =
     Some (client2\<lparr>Send := Some \<lparr>buf = [event0], cap = 1, closed = True\<rparr>\<rparr>) \<and>
   registered (snd (broadcastToQuiz True [2, 0] hub0 ''geo00001'' event0)) 3 \<and>
   objects (snd (broadcastToQuiz True [2, 0] hub0 ''geo00001'' event0)) 3 = Some client3"
proof -
  note t = broadcast_reaches_the_quiz [OF hub0_ok, of True "[2, 0]" "''geo00001''" event0]
  have r: "registered hub0 1" "registered hub0 2" "registered hub0 3"
    by (simp_all add: registered_def hub0_def)
  have o: "objects hub0 1 = Some client1" "objects hub0 2 = Some client2"
      "objects hub0 3 = Some client3"
    by (simp_all add: hub0_def)
  have c1: "Client_QuizID client1 = ''geo00001''" "has_space client1"
      "enqueue event0 client1 = client1\<lparr>Send := Some \<lparr>buf = [event0], cap = 256, closed = False\<rparr>\<rparr>"
    by (simp_all add: client1_def has_space_def enqueue_def)
  have c2: "Client_QuizID client2 = ''geo00001''" "\<not> has_space client2"
      "close_client client2 = client2\<lparr>Send := Some \<lparr>buf = [event0], cap = 1, closed = True\<rparr>\<rparr>"
    by (simp_all add: client2_def has_space_def close_client_def)
  have c3: "Client_QuizID client3 \<noteq> ''geo00001''"
    by (simp add: client3_def)
  note each = t [THEN conjunct2, THEN conjunct2, THEN conjunct1, rule_format]
  have k1: "registered (snd (broadcastToQuiz True [2, 0] hub0 ''geo00001'' event0)) 1 \<and>
      objects (snd (broadcastToQuiz True [2, 0] hub0 ''geo00001'' event0)) 1 = Some (enqueue event0 client1)"
    using each [of 1 client1] r(1) o(1) c1(1,2) by blast
  have k2: "\<not> registered (snd (broadcastToQuiz True [2, 0] hub0 ''geo00001'' event0)) 2 \<and>
      objects (snd (broadcastToQuiz True [2, 0] hub0 ''geo00001'' event0)) 2 = Some (close_client client2)"
    using each [of 2 client2] r(2) o(2) c2(1,2) by blast
  have k3: "registered (snd (broadcastToQuiz True [2, 0] hub0 ''geo00001'' event0)) 3 \<and>
      objects (snd (broadcastToQuiz True [2, 0] hub0 ''geo00001'' event0)) 3 = Some client3"
    using each [of 3 client3] r(3) o(3) c3 by blast
  show ?thesis
    using t [THEN conjunct1] hub0_ok k1 k2 k3 unfolding c1(3) c2(3) by blast
qed

text \<open>
  C5. Whatever the order in which the \<^verbatim>\<open>range\<close> meets the participants,
  \<^verbatim>\<open>GetLeaderboard\<close> returns as many entries as the quiz has participants; no entry has
  a score above that of an entry before it, as Go ints; without their positions the
  entries are those of the participants, each as often as it is there; and the positions
  are 1, 2, ... up to the number of participants, as Go ints and, below \<open>2 ^ 63\<close>
  participants, as numbers. What the service returns is this leaderboard of the quiz that
  \<^verbatim>\<open>GetQuiz\<close> finds.
\<close>

theorem leaderboard_sorted_and_ranked:
  "length (Quiz_GetLeaderboard cs q) = length (Participants q) \<and>
   sorted_wrt by_score (Quiz_GetLeaderboard cs q) \<and>
   mset (map unranked (Quiz_GetLeaderboard cs q)) =
     mset (map (\<lambda>(k, user). entry_of_user user) (Participants q)) \<and>
   map Position (Quiz_GetLeaderboard cs q) = map word_of_nat [1..<Suc (length (Participants q))] \<and>
   (length (Participants q) < 2 ^ 63 \<longrightarrow>
      map sint (map Position (Quiz_GetLeaderboard cs q)) =
        map int [1..<Suc (length (Participants q))]) \<and>
   (fst (GetLeaderboard env qs quizID) = Inr lb \<longrightarrow>
      (\<exists>quiz. fst (GetQuiz env qs quizID) = Inr quiz \<and>
         lb = Quiz_GetLeaderboard (range_participants env) quiz))"
proof (intro conjI impI)
  show "length (Quiz_GetLeaderboard cs q) = length (Participants q)"
    by (rule Quiz_GetLeaderboard_props(1))
  show "sorted_wrt by_score (Quiz_GetLeaderboard cs q)"
    by (rule Quiz_GetLeaderboard_props(2))
  show "mset (map unranked (Quiz_GetLeaderboard cs q)) =
     mset (map (\<lambda>(k, user). entry_of_user user) (Participants q))"
    by (rule Quiz_GetLeaderboard_props(4))
  show "map Position (Quiz_GetLeaderboard cs q) = map word_of_nat [1..<Suc (length (Participants q))]"
    by (rule Quiz_GetLeaderboard_props(3))
next
  assume "length (Participants q) < 2 ^ 63"
  then show "map sint (map Position (Quiz_GetLeaderboard cs q)) =
        map int [1..<Suc (length (Participants q))]"
    unfolding Quiz_GetLeaderboard_props(3) by (rule positions_as_numbers)
next
  assume "fst (GetLeaderboard env qs quizID) = Inr lb"
  then show "\<exists>quiz. fst (GetQuiz env qs quizID) = Inr quiz \<and>
         lb = Quiz_GetLeaderboard (range_participants env) quiz"
    by (rule GetLeaderboard_result)
qed

theorem leaderboard_sorted_and_ranked_witness:
  "length (Participants tie_quiz) < 2 ^ 63 \<and>
   map Entry_UserID (Quiz_GetLeaderboard [2] tie_quiz) = [''carol001'', ''alice001'', ''bob00001''] \<and>
   length (Quiz_GetLeaderboard [2] tie_quiz) = 3 \<and>
   sorted_wrt by_score (Quiz_GetLeaderboard [2] tie_quiz) \<and>
   map sint (map Position (Quiz_GetLeaderboard [2] tie_quiz)) = [1, 2, 3] \<and>
   fst (GetLeaderboard env0 service0 ''geo00001'') = Inr (Quiz_GetLeaderboard [] geo) \<and>
   (\<exists>quiz. fst (GetQuiz env0 service0 ''geo00001'') = Inr quiz \<and>
      Quiz_GetLeaderboard [] geo = Quiz_GetLeaderboard (range_participants env0) quiz)"
proof -
  have n: "length (Participants tie_quiz) = 3" "length (Participants tie_quiz) < 2 ^ 63"
      "map int [1..<Suc 3] = [1, 2, 3]"
    by (simp_all add: tie_quiz_def upt_rec)
  have g: "fst (GetLeaderboard env0 service0 ''geo00001'') = Inr (Quiz_GetLeaderboard [] geo)"
    by (simp add: GetLeaderboard_def service0_GetQuiz env0_def Let_def)
  show ?thesis
    using n g tie_quiz_other_order
      leaderboard_sorted_and_ranked [of "[2]" tie_quiz env0 service0 "''geo00001''"
        "Quiz_GetLeaderboard [] geo"]
    by metis
qed

text \<open>
  C6, as stated, fails: the sort looks at the scores only, so the order in which two calls
  on one state give the participants with equal scores depends on the order in which the
  \<^verbatim>\<open>range\<close> over the map happens to meet the participants. Here two orders of the
  \<^verbatim>\<open>range\<close> give two leaderboards, and in the second the participant who joined later
  stands before the one with the same score who joined earlier.
\<close>

theorem leaderboard_ties_depend_on_the_iteration:
  "map Entry_UserID (Quiz_GetLeaderboard [] tie_quiz) = [''alice001'', ''carol001'', ''bob00001''] \<and>
   map Entry_UserID (Quiz_GetLeaderboard [2] tie_quiz) = [''carol001'', ''alice001'', ''bob00001''] \<and>
   User_Score alice = User_Score carol \<and> JoinedAt alice < JoinedAt carol"
  using tie_quiz_stored_order tie_quiz_other_order by (simp add: alice_def carol_def)

text \<open>
  C6, amended. Two calls on one state return the same scores and the same positions, place
  by place, and the same entries up to their positions, each as often; and when no two
  participants have the same score, they return the same leaderboard. No rule breaks a
  tie: when two participants with different user identifiers have the same score, there
  are two orders of the \<^verbatim>\<open>range\<close> for which the leaderboards differ.
\<close>

theorem leaderboard_same_up_to_ties:
  "map Entry_Score (Quiz_GetLeaderboard cs1 q) = map Entry_Score (Quiz_GetLeaderboard cs2 q) \<and>
   map Position (Quiz_GetLeaderboard cs1 q) = map Position (Quiz_GetLeaderboard cs2 q) \<and>
   mset (map unranked (Quiz_GetLeaderboard cs1 q)) =
     mset (map unranked (Quiz_GetLeaderboard cs2 q)) \<and>
   (distinct (map (\<lambda>(k, user). User_Score user) (Participants q')) \<longrightarrow>
      Quiz_GetLeaderboard cs1 q' = Quiz_GetLeaderboard cs2 q') \<and>
   ((k1, u1) \<in> set (Participants q'') \<and> (k2, u2) \<in> set (Participants q'') \<and>
    User_Score u1 = User_Score u2 \<and> User_ID u1 \<noteq> User_ID u2 \<longrightarrow>
      (\<exists>cs cs'. Quiz_GetLeaderboard cs q'' \<noteq> Quiz_GetLeaderboard cs' q''))"
proof (intro conjI impI)
  show "map Entry_Score (Quiz_GetLeaderboard cs1 q) = map Entry_Score (Quiz_GetLeaderboard cs2 q)"
    by (rule Quiz_GetLeaderboard_scores)
  show "map Position (Quiz_GetLeaderboard cs1 q) = map Position (Quiz_GetLeaderboard cs2 q)"
    by (simp add: Quiz_GetLeaderboard_props(3))
  show "mset (map unranked (Quiz_GetLeaderboard cs1 q)) =
     mset (map unranked (Quiz_GetLeaderboard cs2 q))"
    by (simp only: Quiz_GetLeaderboard_props(4))
next
  assume "distinct (map (\<lambda>(k, user). User_Score user) (Participants q'))"
  then show "Quiz_GetLeaderboard cs1 q' = Quiz_GetLeaderboard cs2 q'"
    by (rule Quiz_GetLeaderboard_no_ties)
next
  assume "(k1, u1) \<in> set (Participants q'') \<and> (k2, u2) \<in> set (Participants q'') \<and>
    User_Score u1 = User_Score u2 \<and> User_ID u1 \<noteq> User_ID u2"
  then show "\<exists>cs cs'. Quiz_GetLeaderboard cs q'' \<noteq> Quiz_GetLeaderboard cs' q''"
    using Quiz_GetLeaderboard_ties [of k1 u1 q'' k2 u2] by blast
qed

theorem leaderboard_same_up_to_ties_witness:
  "map Entry_Score (Quiz_GetLeaderboard [] tie_quiz) =
     map Entry_Score (Quiz_GetLeaderboard [2] tie_quiz) \<and>
   map Position (Quiz_GetLeaderboard [] tie_quiz) = map Position (Quiz_GetLeaderboard [2] tie_quiz) \<and>
   distinct (map (\<lambda>(k, user). User_Score user) (Participants geo)) \<and>
   Quiz_GetLeaderboard [] geo = Quiz_GetLeaderboard [2] geo \<and>
   (''alice001'', alice) \<in> set (Participants tie_quiz) \<and>
   (''carol001'', carol) \<in> set (Participants tie_quiz) \<and>
   User_Score alice = User_Score carol \<and> User_ID alice \<noteq> User_ID carol \<and>
   (\<exists>cs cs'. Quiz_GetLeaderboard cs tie_quiz \<noteq> Quiz_GetLeaderboard cs' tie_quiz)"
proof -
  have d: "distinct (map (\<lambda>(k, user). User_Score user) (Participants geo))"
    by (simp add: geo_def alice_def bob_def)
  have t: "(''alice001'', alice) \<in> set (Participants tie_quiz)"
      "(''carol001'', carol) \<in> set (Participants tie_quiz)"
      "User_Score alice = User_Score carol" "User_ID alice \<noteq> User_ID carol"
    by (simp_all add: tie_quiz_def alice_def carol_def)
  show ?thesis
    using d t
      leaderboard_same_up_to_ties [of "[]" tie_quiz "[2]" geo "''alice001''" alice tie_quiz
        "''carol001''" carol]
    by blast
qed

text \<open>
  C7, as stated, fails: \<^verbatim>\<open>EndQuiz\<close> has no guard, and takes a quiz that was never
  started from Waiting to Ended.
\<close>

theorem end_quiz_skips_active:
  "map_option Status (Quizzes lobby_service ''c0ffee00'') = Some QuizStatusWaiting \<and>
   fst (EndQuiz env0 lobby_service ''c0ffee00'') = None \<and>
   map_option Status (Quizzes (snd (EndQuiz env0 lobby_service ''c0ffee00'')) ''c0ffee00'') =
     Some QuizStatusEnded"
  by (simp add: EndQuiz_def lobby_service_def new_quiz_def Let_def SaveQuiz_def
      broadcastToQuiz_def PublishMessage_def)

text \<open>
  C7, amended. Over any sequence of calls that run one after the other, each to its end
  before the next one begins, and in which no \<^verbatim>\<open>CreateQuiz\<close> is given the identifier
  of a quiz in memory, a quiz in memory stays there and its status never moves back in the
  order Waiting, Active, Ended. \<^verbatim>\<open>StartQuiz\<close> on a quiz that is not Waiting
  fails with "quiz is not in waiting status", an invalid-state failure, and leaves the quiz
  as it was; on a Waiting quiz it sets Active. \<^verbatim>\<open>EndQuiz\<close> sets Ended whatever the
  status was.
\<close>

theorem status_never_moves_back:
  "(fresh_ids qs reqs \<and> Quizzes qs k = Some q \<longrightarrow>
      (\<exists>q'. Quizzes (serve_all qs reqs) k = Some q' \<and>
            status_rank (Status q) \<le> status_rank (Status q'))) \<and>
   (GetQuiz env1 qs1 id1 = (Inr quiz1, qs1') \<and> Status quiz1 \<noteq> QuizStatusWaiting \<longrightarrow>
      StartQuiz env1 qs1 id1 = (Some QuizNotWaiting, qs1') \<and>
      kind_of QuizNotWaiting = InvalidState \<and> Quizzes qs1' id1 = Some quiz1) \<and>
   (GetQuiz env2 qs2 id2 = (Inr quiz2, qs2') \<and> Status quiz2 = QuizStatusWaiting \<longrightarrow>
      map_option Status (Quizzes (snd (StartQuiz env2 qs2 id2)) id2) = Some QuizStatusActive) \<and>
   (GetQuiz env3 qs3 id3 = (Inr quiz3, qs3') \<longrightarrow>
      map_option Status (Quizzes (snd (EndQuiz env3 qs3 id3)) id3) = Some QuizStatusEnded)"
proof (intro conjI impI)
  assume "fresh_ids qs reqs \<and> Quizzes qs k = Some q"
  then show "\<exists>q'. Quizzes (serve_all qs reqs) k = Some q' \<and>
            status_rank (Status q) \<le> status_rank (Status q')"
    using serve_all_status by blast
next
  assume h: "GetQuiz env1 qs1 id1 = (Inr quiz1, qs1') \<and> Status quiz1 \<noteq> QuizStatusWaiting"
  then show "StartQuiz env1 qs1 id1 = (Some QuizNotWaiting, qs1')"
    using StartQuiz_fail(2) by blast
  show "kind_of QuizNotWaiting = InvalidState"
    by simp
  show "Quizzes qs1' id1 = Some quiz1"
    using h GetQuiz_found(2) [of env1 qs1 id1 quiz1 qs1'] by simp
next
  assume "GetQuiz env2 qs2 id2 = (Inr quiz2, qs2') \<and> Status quiz2 = QuizStatusWaiting"
  then show "map_option Status (Quizzes (snd (StartQuiz env2 qs2 id2)) id2) = Some QuizStatusActive"
    using StartQuiz_status by blast
next
  assume "GetQuiz env3 qs3 id3 = (Inr quiz3, qs3')"
  then show "map_option Status (Quizzes (snd (EndQuiz env3 qs3 id3)) id3) = Some QuizStatusEnded"
    by (rule EndQuiz_status)
qed

theorem status_never_moves_back_witness:
  "fresh_ids service0
     [(env0, CreateQuizReq ''Art''), (env0, EndQuizReq ''geo00001''),
      (env0, StartQuizReq ''geo00001'')] \<and>
   Quizzes service0 ''geo00001'' = Some geo \<and> Status geo = QuizStatusActive \<and>
   (\<exists>q'. Quizzes (serve_all service0
              [(env0, CreateQuizReq ''Art''), (env0, EndQuizReq ''geo00001''),
               (env0, StartQuizReq ''geo00001'')]) ''geo00001'' = Some q' \<and>
         1 \<le> status_rank (Status q')) \<and>
   StartQuiz env0 service0 ''geo00001'' = (Some QuizNotWaiting, service0) \<and>
   map_option Status (Quizzes (snd (StartQuiz env0 lobby_service ''c0ffee00'')) ''c0ffee00'') =
     Some QuizStatusActive \<and>
   map_option Status (Quizzes (snd (EndQuiz env0 service0 ''geo00001'')) ''geo00001'') =
     Some QuizStatusEnded"
proof -
  have f: "fresh_ids service0
     [(env0, CreateQuizReq ''Art''), (env0, EndQuizReq ''geo00001''),
      (env0, StartQuizReq ''geo00001'')]"
    by (simp add: service0_def env0_def)
  have q: "Quizzes service0 ''geo00001'' = Some geo" "Status geo = QuizStatusActive"
      "Status geo \<noteq> QuizStatusWaiting" "status_rank (Status geo) = 1"
      "Status (new_quiz env0 ''Geo'') = QuizStatusWaiting"
    by (simp_all add: service0_def geo_def new_quiz_def)
  show ?thesis
    using f q service0_GetQuiz [of env0] lobby_GetQuiz [of env0]
      status_never_moves_back [of service0
        "[(env0, CreateQuizReq ''Art''), (env0, EndQuizReq ''geo00001''),
          (env0, StartQuizReq ''geo00001'')]" "''geo00001''" geo
        env0 service0 "''geo00001''" geo service0
        env0 lobby_service "''c0ffee00''" "new_quiz env0 ''Geo''" lobby_service
        env0 service0 "''geo00001''" geo service0]
    by metis
qed

text \<open>
  C8 fails on the code: the loop hands what it receives to \<^verbatim>\<open>broadcastToQuiz\<close>, which
  publishes. Here Redis has no published message and the loop receives one event on the
  channel of a quiz; afterwards this event has been published on that channel. The same
  happens with the event received on the channel named \<^verbatim>\<open>quiz:*\<close>, the name the loop
  subscribes to.
\<close>

theorem received_event_is_published_again:
  "redis_published (Redis cold_service) = [] \<and>
   redis_published
     (Redis (snd (startRedisSubscription cold_service
                    [(env0, Inr \<lparr>Channel = ''quiz:geo00001'', Bytes = Encoded event0\<rparr>)]))) =
     [(''quiz:geo00001'', event0)] \<and>
   redis_published
     (Redis (snd (startRedisSubscription cold_service
                    [(env0, Inr \<lparr>Channel = ''quiz:*'', Bytes = Encoded event0\<rparr>)]))) =
     [(''quiz:*'', event0)]"
proof -
  have "IsAvailable (Redis cold_service)"
    by (simp add: IsAvailable_def cold_service_def)
  then have loop: "startRedisSubscription cold_service received =
      subscription_loop cold_service received" for received
    by (simp add: startRedisSubscription_def)
  have "Redis (snd (startRedisSubscription cold_service [(env0, Inr msg)])) =
        snd (PublishMessage (Redis cold_service) (publish_ok env0 0)
               (''quiz:'' @ drop 5 (Channel msg)) event0)"
    if "Bytes msg = Encoded event0" "5 \<le> length (Channel msg)" for msg
    unfolding loop subscription_loop_once
    using cold_service_hub_ok that by (rule on_message_publishes)
  from this [of "\<lparr>Channel = ''quiz:geo00001'', Bytes = Encoded event0\<rparr>"]
    this [of "\<lparr>Channel = ''quiz:*'', Bytes = Encoded event0\<rparr>"]
  show ?thesis
    by (simp add: PublishMessage_def cold_service_def redis0_def env0_def redis_published_def)
qed

text \<open>
  C9, as stated, fails: when Redis is there and the write of the quiz fails,
  \<^verbatim>\<open>CreateQuiz\<close> returns the error and no quiz, and the quiz is not in memory.
\<close>

theorem create_quiz_fails_with_the_save:
  "fst (CreateQuiz env_down cold_service ''Geo'') = Inl CreateSaveFailed \<and>
   Quizzes (snd (CreateQuiz env_down cold_service ''Geo'')) (uuid env_down) = None"
  by (simp add: CreateQuiz_def SaveQuiz_def cold_service_def env_down_def env0_def)

text \<open>
  C9, amended. With a Redis client, a failed write of the quiz makes \<^verbatim>\<open>CreateQuiz\<close>
  fail with "failed to save quiz to Redis", a persistence failure, and leaves the whole
  state as it was. Without a client (the memory-only mode), or when the write succeeds,
  whether or not the quiz could be added to the set of active quizzes, \<^verbatim>\<open>CreateQuiz\<close>
  returns a quiz with the generated identifier, the sample questions, no participants and
  the status Waiting, and this quiz is in memory under its identifier.
\<close>

theorem create_quiz_fails_or_registers:
  "(client (Redis qs) \<noteq> None \<and> \<not> set_quiz_ok env \<longrightarrow>
      CreateQuiz env qs title = (Inl CreateSaveFailed, qs) \<and>
      kind_of CreateSaveFailed = PersistenceError) \<and>
   (client (Redis qs') = None \<or> set_quiz_ok env' \<longrightarrow>
      (\<exists>quiz. fst (CreateQuiz env' qs' title') = Inr quiz \<and>
         Quizzes (snd (CreateQuiz env' qs' title')) (uuid env') = Some quiz \<and>
         Quiz_ID quiz = uuid env' \<and> Title quiz = title' \<and> Questions quiz = getSampleQuestions \<and>
         Participants quiz = [] \<and> Status quiz = QuizStatusWaiting))"
proof (intro conjI impI)
  assume h: "client (Redis qs) \<noteq> None \<and> \<not> set_quiz_ok env"
  show "CreateQuiz env qs title = (Inl CreateSaveFailed, qs)"
    using h by (cases rule: CreateQuiz_cases [of qs env title]) simp_all
  show "kind_of CreateSaveFailed = PersistenceError"
    by simp
next
  assume h: "client (Redis qs') = None \<or> set_quiz_ok env'"
  have "fst (CreateQuiz env' qs' title') = Inr (new_quiz env' title') \<and>
      Quizzes (snd (CreateQuiz env' qs' title')) (uuid env') = Some (new_quiz env' title')"
    using h by (cases rule: CreateQuiz_cases [of qs' env' title']) auto
  then show "\<exists>quiz. fst (CreateQuiz env' qs' title') = Inr quiz \<and>
         Quizzes (snd (CreateQuiz env' qs' title')) (uuid env') = Some quiz \<and>
         Quiz_ID quiz = uuid env' \<and> Title quiz = title' \<and> Questions quiz = getSampleQuestions \<and>
         Participants quiz = [] \<and> Status quiz = QuizStatusWaiting"
    by (simp add: new_quiz_def)
qed

theorem create_quiz_fails_or_registers_witness:
  "client (Redis cold_service) \<noteq> None \<and> \<not> set_quiz_ok env_down \<and>
   CreateQuiz env_down cold_service ''Geo'' = (Inl CreateSaveFailed, cold_service) \<and>
   client (Redis service0) = None \<and>
   (\<exists>quiz. fst (CreateQuiz env_down service0 ''Art'') = Inr quiz \<and>
      Quizzes (snd (CreateQuiz env_down service0 ''Art'')) (uuid env_down) = Some quiz \<and>
      Quiz_ID quiz = uuid env_down \<and> Title quiz = ''Art'' \<and> Questions quiz = getSampleQuestions \<and>
      Participants quiz = [] \<and> Status quiz = QuizStatusWaiting)"
proof -
  have c: "client (Redis cold_service) \<noteq> None" "\<not> set_quiz_ok env_down"
      "client (Redis service0) = None"
    by (simp_all add: cold_service_def env_down_def env0_def service0_def)
  show ?thesis
    using c create_quiz_fails_or_registers
      [of cold_service env_down "''Geo''" service0 env_down "''Art''"]
    by blast
qed

text \<open>
  C10, as stated, fails: a call that ends with "user not found" has first taken the quiz
  from Redis and added it to the quizzes in memory.
\<close>

theorem rejected_answer_fills_the_cache:
  "fst (SubmitAnswer env0 cold_service ''geo00001'' ''nobody'' ''q1'' 0) =
     Some (UserNotFound ''nobody'') \<and>
   Quizzes cold_service ''geo00001'' = None \<and>
   Quizzes (snd (SubmitAnswer env0 cold_service ''geo00001'' ''nobody'' ''q1'' 0)) ''geo00001'' =
     Some geo"
  by (simp add: SubmitAnswer_def GetQuiz_def Redis_GetQuiz_def cold_service_def redis0_def
      env0_def geo_def)

text \<open>
  C10, amended. When \<^verbatim>\<open>SubmitAnswer\<close> returns an error that is not a panic, the error is
  one of the four of its checks; Redis, the registry of clients and the clients are as
  they were, so that nothing was saved, published or queued; every quiz that was in
  memory is as it was, with its participants, their answers and their scores; and the
  quizzes in memory are either as they were, or they have in addition, under the key of
  the call, the quiz that Redis holds under it.
\<close>

theorem rejected_answer_changes_only_the_cache:
  "fst (SubmitAnswer env qs quizID userID questionID answer) = Some e \<and>
   kind_of e \<noteq> RuntimePanic \<longrightarrow>
     e \<in> {QuizNotFound quizID, UserNotFound userID, AlreadyAnswered, QuestionNotFound questionID} \<and>
     Redis (snd (SubmitAnswer env qs quizID userID questionID answer)) = Redis qs \<and>
     Clients (snd (SubmitAnswer env qs quizID userID questionID answer)) = Clients qs \<and>
     objects (snd (SubmitAnswer env qs quizID userID questionID answer)) = objects qs \<and>
     (\<forall>k q. Quizzes qs k = Some q \<longrightarrow>
        Quizzes (snd (SubmitAnswer env qs quizID userID questionID answer)) k = Some q) \<and>
     (Quizzes (snd (SubmitAnswer env qs quizID userID questionID answer)) = Quizzes qs \<or>
      (\<exists>quiz. Quizzes qs quizID = None \<and> redis_quizzes (Redis qs) quizID = Some quiz \<and>
         Quizzes (snd (SubmitAnswer env qs quizID userID questionID answer)) =
           (Quizzes qs)(quizID \<mapsto> quiz)))"
proof
  assume h: "fst (SubmitAnswer env qs quizID userID questionID answer) = Some e \<and>
    kind_of e \<noteq> RuntimePanic"
  then have e: "e \<in> {QuizNotFound quizID, UserNotFound userID, AlreadyAnswered,
                     QuestionNotFound questionID}"
    and s: "snd (SubmitAnswer env qs quizID userID questionID answer) = snd (GetQuiz env qs quizID)"
    using SubmitAnswer_rejected [of env qs quizID userID questionID answer e] by simp_all
  show "e \<in> {QuizNotFound quizID, UserNotFound userID, AlreadyAnswered, QuestionNotFound questionID} \<and>
     Redis (snd (SubmitAnswer env qs quizID userID questionID answer)) = Redis qs \<and>
     Clients (snd (SubmitAnswer env qs quizID userID questionID answer)) = Clients qs \<and>
     objects (snd (SubmitAnswer env qs quizID userID questionID answer)) = objects qs \<and>
     (\<forall>k q. Quizzes qs k = Some q \<longrightarrow>
        Quizzes (snd (SubmitAnswer env qs quizID userID questionID answer)) k = Some q) \<and>
     (Quizzes (snd (SubmitAnswer env qs quizID userID questionID answer)) = Quizzes qs \<or>
      (\<exists>quiz. Quizzes qs quizID = None \<and> redis_quizzes (Redis qs) quizID = Some quiz \<and>
         Quizzes (snd (SubmitAnswer env qs quizID userID questionID answer)) =
           (Quizzes qs)(quizID \<mapsto> quiz)))"
    unfolding s using e GetQuiz_frame [of env qs quizID] by blast
qed

theorem rejected_answer_changes_only_the_cache_witness:
  "fst (SubmitAnswer env0 cold_service ''geo00001'' ''nobody'' ''q1'' 0) =
     Some (UserNotFound ''nobody'') \<and>
   kind_of (UserNotFound ''nobody'') \<noteq> RuntimePanic \<and>
   Redis (snd (SubmitAnswer env0 cold_service ''geo00001'' ''nobody'' ''q1'' 0)) =
     \<lparr>client = Some redis0\<rparr> \<and>
   Clients (snd (SubmitAnswer env0 cold_service ''geo00001'' ''nobody'' ''q1'' 0)) = [] \<and>
   (Quizzes (snd (SubmitAnswer env0 cold_service ''geo00001'' ''nobody'' ''q1'' 0)) =
      Quizzes cold_service \<or>
    (\<exists>quiz. Quizzes cold_service ''geo00001'' = None \<and>
       redis_quizzes (Redis cold_service) ''geo00001'' = Some quiz \<and>
       Quizzes (snd (SubmitAnswer env0 cold_service ''geo00001'' ''nobody'' ''q1'' 0)) =
         (Quizzes cold_service)(''geo00001'' \<mapsto> quiz)))"
proof -
  have f: "fst (SubmitAnswer env0 cold_service ''geo00001'' ''nobody'' ''q1'' 0) =
     Some (UserNotFound ''nobody'')"
    by (simp add: SubmitAnswer_def GetQuiz_def Redis_GetQuiz_def cold_service_def redis0_def
        env0_def geo_def)
  have k: "kind_of (UserNotFound ''nobody'') \<noteq> RuntimePanic"
    by simp
  have c: "Redis cold_service = \<lparr>client = Some redis0\<rparr>" "Clients cold_service = []"
    by (simp_all add: cold_service_def)
  show ?thesis
    using rejected_answer_changes_only_the_cache
      [of env0 cold_service "''geo00001''" "''nobody''" "''q1''" 0 "UserNotFound ''nobody''"]
      f k unfolding c by blast
qed

end
